theory Spec2Isabelle
  imports Complex_Main "HOL-Library.Multiset" "HOL-Library.Sublist"
begin

section \<open>Data model\<close>

text \<open>
  The comparison core of Phytoport works on tuples. Python integers are unbounded
  (\<open>int\<close>); a score is a Python float that the code only compares (\<open>>=\<close>, \<open>==\<close>),
  modelled as \<open>real\<close> (the NaN value, which compares false with everything, is not
  represented); a residue is the string \<open>row[2].upper()\<close>.

  \<^item> \<open>Domain = (predictor, domain_name, start, end)\<close> (compare/domains.py)
  \<^item> \<open>Site = (position, residue, score)\<close> (compare/ps_sites.py, compare/msa_ps_sites.py)
  \<^item> \<open>MappedSite = (msa_col, raw_pos, residue, score)\<close> (compare/msa_ps_sites.py)
\<close>

type_synonym domain = "string \<times> string \<times> int \<times> int"
type_synonym site = "int \<times> string \<times> real"
type_synonym mapped_site = "int \<times> int \<times> string \<times> real"

text \<open>Match records, as the three matchers append them to \<open>common\<close>.\<close>

type_synonym domain_match = "string \<times> (int \<times> int) \<times> (int \<times> int) \<times> string \<times> string"
type_synonym site_match = "int \<times> string \<times> real \<times> real"
type_synonym msa_match = "int \<times> int \<times> int \<times> string \<times> real \<times> real"

section \<open>Cutoff filter\<close>

text \<open>
  \<^verbatim>\<open>return [s for s in sites if s[2] >= cutoff]\<close>
  (identical in compare/ps_sites.py and compare/msa_ps_sites.py).
\<close>

definition filter_sites_by_cutoff :: "site list \<Rightarrow> real \<Rightarrow> site list" where
  "filter_sites_by_cutoff sites cutoff = [s \<leftarrow> sites. snd (snd s) \<ge> cutoff]"

section \<open>Coordinate mapper\<close>

text \<open>
  \<^verbatim>\<open>
  mapping = {}; raw_pos = 0
  for msa_idx, aa in enumerate(aligned_seq, start=1):
      if aa not in ("-", "."):
          raw_pos += 1
          mapping[raw_pos] = msa_idx
  return mapping
  \<close>
  The loop carries the column counter of \<open>enumerate\<close>, the raw counter and the dict.
\<close>

fun map_loop :: "int \<Rightarrow> int \<Rightarrow> (int \<rightharpoonup> int) \<Rightarrow> string \<Rightarrow> (int \<rightharpoonup> int)" where
  "map_loop msa_idx raw_pos mapping [] = mapping"
| "map_loop msa_idx raw_pos mapping (aa # rest) =
     (if aa \<noteq> CHR ''-'' \<and> aa \<noteq> CHR ''.''
      then map_loop (msa_idx + 1) (raw_pos + 1) (mapping(raw_pos + 1 \<mapsto> msa_idx)) rest
      else map_loop (msa_idx + 1) raw_pos mapping rest)"

definition map_seq_to_msa_positions :: "string \<Rightarrow> (int \<rightharpoonup> int)" where
  "map_seq_to_msa_positions aligned_seq = map_loop 1 0 Map.empty aligned_seq"

section \<open>Coordinate conversion\<close>

text \<open>
  \<^verbatim>\<open>
  for raw_pos, residue, score in sites:
      msa_col = pos_map.get(raw_pos)
      if msa_col is None: continue
      converted.append((msa_col, raw_pos, residue, score))
  \<close>
\<close>

fun convert_sites_to_msa :: "site list \<Rightarrow> (int \<rightharpoonup> int) \<Rightarrow> mapped_site list" where
  "convert_sites_to_msa [] pos_map = []"
| "convert_sites_to_msa ((raw_pos, residue, score) # sites) pos_map =
     (case pos_map raw_pos of
        None \<Rightarrow> convert_sites_to_msa sites pos_map
      | Some msa_col \<Rightarrow> (msa_col, raw_pos, residue, score) # convert_sites_to_msa sites pos_map)"

section \<open>Dictionaries that hold lists\<close>

text \<open>
  \<open>defaultdict(list)\<close> keeps its keys in insertion order; \<open>d[k].append(v)\<close> creates
  the key at the end when it is new. \<open>d.get(k, default)\<close> reads without inserting.
\<close>

fun dict_append :: "'k \<Rightarrow> 'v \<Rightarrow> ('k \<times> 'v list) list \<Rightarrow> ('k \<times> 'v list) list" where
  "dict_append k v [] = [(k, [v])]"
| "dict_append k v ((k', vs) # rest) =
     (if k = k' then (k', vs @ [v]) # rest else (k', vs) # dict_append k v rest)"

definition dict_get :: "('k \<times> 'v) list \<Rightarrow> 'k \<Rightarrow> 'v \<Rightarrow> 'v" where
  "dict_get d k dflt = (case map_of d k of None \<Rightarrow> dflt | Some v \<Rightarrow> v)"

definition setdefault :: "'k \<Rightarrow> 'v \<Rightarrow> ('k \<times> 'v) list \<Rightarrow> ('k \<times> 'v) list" where
  "setdefault k v d = (case map_of d k of None \<Rightarrow> d @ [(k, v)] | Some _ \<Rightarrow> d)"

section \<open>Domain matcher (compare/domains.py)\<close>

text \<open>
  \<^verbatim>\<open>
  by_name2 = defaultdict(list)
  for d in domains2:
      by_name2[d[1]].append(d)
  \<close>
\<close>

definition group_by_name :: "domain list \<Rightarrow> (string \<times> domain list) list" where
  "group_by_name domains2 = foldl (\<lambda>by_name2 d. dict_append (fst (snd d)) d by_name2) [] domains2"

text \<open>
  \<open>min(candidates, key=f)\<close> on a non-empty list: the running best is replaced only by a
  strictly smaller key, so the first minimal item is returned.
\<close>

fun min_by :: "('a \<Rightarrow> int) \<Rightarrow> 'a \<Rightarrow> 'a list \<Rightarrow> 'a" where
  "min_by key best [] = best"
| "min_by key best (x # xs) = (if key x < key best then min_by key x xs else min_by key best xs)"

text \<open>
  One pass of the loop over \<open>domains1\<close>; the state is \<open>(common, unique1, used_d2)\<close>,
  where \<open>used_d2\<close> is a Python \<open>set\<close> of tuples (membership is by value).
  \<^verbatim>\<open>
  src1, name1, s1, e1 = d1
  if name1 not in by_name2: unique1.append(d1); continue
  candidates = [d2 for d2 in by_name2[name1] if d2 not in used_d2]
  if not candidates: unique1.append(d1); continue
  d2 = min(candidates, key=lambda x: abs(x[2] - s1))
  used_d2.add(d2)
  common.append((name1, (s1, e1), (d2[2], d2[3]), src1, d2[0]))
  \<close>
\<close>

fun domains_step ::
  "(string \<times> domain list) list \<Rightarrow> domain_match list \<times> domain list \<times> domain set \<Rightarrow> domain
     \<Rightarrow> domain_match list \<times> domain list \<times> domain set" where
  "domains_step by_name2 (common, unique1, used_d2) (src1, name1, s1, e1) =
     (case map_of by_name2 name1 of
        None \<Rightarrow> (common, unique1 @ [(src1, name1, s1, e1)], used_d2)
      | Some bucket \<Rightarrow>
          (case [d2 \<leftarrow> bucket. d2 \<notin> used_d2] of
             [] \<Rightarrow> (common, unique1 @ [(src1, name1, s1, e1)], used_d2)
           | c # cs \<Rightarrow>
               (let d2 = min_by (\<lambda>x. \<bar>fst (snd (snd x)) - s1\<bar>) c cs
                in (common @ [(name1, (s1, e1), (fst (snd (snd d2)), snd (snd (snd d2))), src1, fst d2)],
                    unique1, insert d2 used_d2))))"

text \<open>
  \<^verbatim>\<open>
  unique2 = [d for dlist in by_name2.values() for d in dlist if d not in used_d2]
  return common, unique1, unique2
  \<close>
\<close>

definition find_common_domains ::
  "domain list \<Rightarrow> domain list \<Rightarrow> domain_match list \<times> domain list \<times> domain list" where
  "find_common_domains domains1 domains2 =
     (let by_name2 = group_by_name domains2 in
      case foldl (domains_step by_name2) ([], [], {}) domains1 of
        (common, unique1, used_d2) \<Rightarrow>
          (common, unique1, [d \<leftarrow> concat (map snd by_name2). d \<notin> used_d2]))"

text \<open>The two sides of a domain match record, as annotations of the inputs.\<close>

fun match_side1 :: "domain_match \<Rightarrow> domain" where
  "match_side1 (name, (s1, e1), (s2, e2), src1, src2) = (src1, name, s1, e1)"

fun match_side2 :: "domain_match \<Rightarrow> domain" where
  "match_side2 (name, (s1, e1), (s2, e2), src1, src2) = (src2, name, s2, e2)"

section \<open>Delta summarizer (compare/domains.py)\<close>

text \<open>
  \<open>summary = defaultdict(lambda: {"\<Delta>start": 0, "\<Delta>end": 0})\<close>; an entry is the pair
  \<open>(\<Delta>start, \<Delta>end)\<close>, and reading \<open>summary[name]\<close> of a new name gives \<open>(0, 0)\<close>.
  \<^verbatim>\<open>
  for name, (s1, e1), (s2, e2), *_ in common:
      ds, de = abs(s1 - s2), abs(e1 - e2)
      summary[name]["\<Delta>start"] = max(summary[name]["\<Delta>start"], ds)
      summary[name]["\<Delta>end"] = max(summary[name]["\<Delta>end"], de)
  \<close>
\<close>

definition summary_get :: "(string \<rightharpoonup> int \<times> int) \<Rightarrow> string \<Rightarrow> int \<times> int" where
  "summary_get summary name = (case summary name of None \<Rightarrow> (0, 0) | Some v \<Rightarrow> v)"

fun summarize_step :: "(string \<rightharpoonup> int \<times> int) \<Rightarrow> domain_match \<Rightarrow> (string \<rightharpoonup> int \<times> int)" where
  "summarize_step summary (name, (s1, e1), (s2, e2), srcs) =
     (let ds = \<bar>s1 - s2\<bar>; de = \<bar>e1 - e2\<bar>;
          summary1 = summary(name \<mapsto> (max (fst (summary_get summary name)) ds,
                                         snd (summary_get summary name)));
          summary2 = summary1(name \<mapsto> (fst (summary_get summary1 name),
                                           max (snd (summary_get summary1 name)) de))
      in summary2)"

definition summarize_distances :: "domain_match list \<Rightarrow> (string \<rightharpoonup> int \<times> int)" where
  "summarize_distances common = foldl summarize_step Map.empty common"

text \<open>The label and the two deltas of one match record.\<close>

fun match_name :: "domain_match \<Rightarrow> string" where
  "match_name (name, (s1, e1), (s2, e2), srcs) = name"

fun delta_start :: "domain_match \<Rightarrow> int" where
  "delta_start (name, (s1, e1), (s2, e2), srcs) = \<bar>s1 - s2\<bar>"

fun delta_end :: "domain_match \<Rightarrow> int" where
  "delta_end (name, (s1, e1), (s2, e2), srcs) = \<bar>e1 - e2\<bar>"

section \<open>Raw-mode site matcher (compare/ps_sites.py)\<close>

text \<open>
  The inner loop scans all of \<open>sites2\<close> and stops at the first entry with the same
  position and residue:
  \<^verbatim>\<open>
  for s2 in sites2:
      pos2, res2, score2 = s2
      if pos1 == pos2 and res1 == res2: ...; match_found = True; break
  \<close>
\<close>

fun first_match :: "int \<Rightarrow> string \<Rightarrow> site list \<Rightarrow> site option" where
  "first_match pos1 res1 [] = None"
| "first_match pos1 res1 ((pos2, res2, score2) # sites2) =
     (if pos1 = pos2 \<and> res1 = res2 then Some (pos2, res2, score2)
      else first_match pos1 res1 sites2)"

text \<open>
  The body of the outer loop; the state is \<open>(common, unique1, unique2)\<close>.
  \<^verbatim>\<open>
  common.append((pos1, res1, score1, score2))
  if s2 in unique2:
      unique2.remove(s2)
  ...
  if not match_found:
      unique1.append((pos1, res1, score1))
  \<close>
  \<open>list.remove\<close> deletes the first element equal to its argument (\<open>remove1\<close>).
\<close>

fun sites_step ::
  "site list \<Rightarrow> site_match list \<times> site list \<times> site list \<Rightarrow> site
     \<Rightarrow> site_match list \<times> site list \<times> site list" where
  "sites_step sites2 (common, unique1, unique2) (pos1, res1, score1) =
     (case first_match pos1 res1 sites2 of
        Some s2 \<Rightarrow>
          (common @ [(pos1, res1, score1, snd (snd s2))], unique1,
           if s2 \<in> set unique2 then remove1 s2 unique2 else unique2)
      | None \<Rightarrow> (common, unique1 @ [(pos1, res1, score1)], unique2))"

text \<open>
  \<open>unique2 = sites2.copy()\<close>, the loop, then \<open>lst.sort(key=lambda x: x[0])\<close> on each of
  the three lists (a stable sort, as \<open>sort_key\<close> is).
\<close>

definition find_common_sites ::
  "site list \<Rightarrow> site list \<Rightarrow> site_match list \<times> site list \<times> site list" where
  "find_common_sites sites1 sites2 =
     (case foldl (sites_step sites2) ([], [], sites2) sites1 of
        (common, unique1, unique2) \<Rightarrow>
          (sort_key fst common, sort_key fst unique1, sort_key fst unique2))"

text \<open>The key of a site, and the two sides of a raw-mode match record.\<close>

definition site_key :: "site \<Rightarrow> int \<times> string" where
  "site_key s = (fst s, fst (snd s))"

fun site_side1 :: "site_match \<Rightarrow> site" where
  "site_side1 (pos, res, score1, score2) = (pos, res, score1)"

fun site_side2 :: "site_match \<Rightarrow> site" where
  "site_side2 (pos, res, score1, score2) = (pos, res, score2)"

section \<open>Alignment-mode site matcher (compare/msa_ps_sites.py)\<close>

text \<open>
  \<^verbatim>\<open>
  index2 = {(msa_col, residue): (raw_pos, score)
            for (msa_col, raw_pos, residue, score) in mapped2}
  \<close>
  A later entry with the same key overwrites an earlier one.
\<close>

fun index2_step ::
  "(int \<times> string \<rightharpoonup> int \<times> real) \<Rightarrow> mapped_site \<Rightarrow> (int \<times> string \<rightharpoonup> int \<times> real)" where
  "index2_step index2 (msa_col, raw_pos, residue, score) =
     index2((msa_col, residue) \<mapsto> (raw_pos, score))"

definition build_index2 :: "mapped_site list \<Rightarrow> (int \<times> string \<rightharpoonup> int \<times> real)" where
  "build_index2 mapped2 = foldl index2_step Map.empty mapped2"

text \<open>
  \<^verbatim>\<open>
  key = (msa_col, residue1)
  if key in index2:
      raw_pos2, score2 = index2[key]
      common.append((msa_col, raw_pos1, raw_pos2, residue1, score1, score2))
      matched_msa_keys.add(key)
  else:
      unique1.append((msa_col, raw_pos1, residue1, score1))
  \<close>
\<close>

fun msa_step ::
  "(int \<times> string \<rightharpoonup> int \<times> real) \<Rightarrow> msa_match list \<times> mapped_site list \<times> (int \<times> string) set
     \<Rightarrow> mapped_site \<Rightarrow> msa_match list \<times> mapped_site list \<times> (int \<times> string) set" where
  "msa_step index2 (common, unique1, matched_msa_keys) (msa_col, raw_pos1, residue1, score1) =
     (case index2 (msa_col, residue1) of
        Some (raw_pos2, score2) \<Rightarrow>
          (common @ [(msa_col, raw_pos1, raw_pos2, residue1, score1, score2)], unique1,
           insert (msa_col, residue1) matched_msa_keys)
      | None \<Rightarrow> (common, unique1 @ [(msa_col, raw_pos1, residue1, score1)], matched_msa_keys))"

definition msa_key :: "mapped_site \<Rightarrow> int \<times> string" where
  "msa_key s = (fst s, fst (snd (snd s)))"

text \<open>
  \<^verbatim>\<open>
  unique2 = [s for s in mapped2 if (s[0], s[2]) not in matched_msa_keys]
  common.sort(key=lambda x: x[0]); unique1.sort(...); unique2.sort(...)
  \<close>
\<close>

definition find_common_sites_msa ::
  "mapped_site list \<Rightarrow> mapped_site list \<Rightarrow> msa_match list \<times> mapped_site list \<times> mapped_site list" where
  "find_common_sites_msa mapped1 mapped2 =
     (let index2 = build_index2 mapped2 in
      case foldl (msa_step index2) ([], [], {}) mapped1 of
        (common, unique1, matched_msa_keys) \<Rightarrow>
          (sort_key fst common, sort_key fst unique1,
           sort_key fst [s \<leftarrow> mapped2. msa_key s \<notin> matched_msa_keys]))"

fun msa_side1 :: "msa_match \<Rightarrow> mapped_site" where
  "msa_side1 (msa_col, raw1, raw2, residue, score1, score2) = (msa_col, raw1, residue, score1)"

fun msa_side2 :: "msa_match \<Rightarrow> mapped_site" where
  "msa_side2 (msa_col, raw1, raw2, residue, score1, score2) = (msa_col, raw2, residue, score2)"

section \<open>Site extraction (compare/ps_sites.py, compare/msa_ps_sites.py)\<close>

text \<open>
  The TSV file is read by \<open>csv.reader\<close>; the model starts from its rows (each a list of
  strings) and leaves out the failures of the file system (\<open>FileNotFoundError\<close>,
  \<open>OSError\<close>). The Python built-ins \<open>int\<close> and \<open>float\<close> are parameters \<open>py_int\<close> and
  \<open>py_float\<close>: \<open>None\<close> stands for their \<open>ValueError\<close>.

  \<open>str.upper\<close> is modelled on the characters of \<open>string\<close>: the ASCII letters \<open>a..z\<close>
  go to \<open>A..Z\<close>, every other character stays. Python's Unicode case mapping beyond
  ASCII (a long s, U+017F, also uppercases to \<open>S\<close>) is outside this model.
\<close>

definition upper_char :: "char \<Rightarrow> char" where
  "upper_char c =
     (if 97 \<le> (of_char c :: nat) \<and> (of_char c :: nat) \<le> 122
      then char_of ((of_char c :: nat) - 32) else c)"

definition upper :: "string \<Rightarrow> string" where
  "upper s = map upper_char s"

text \<open>\<open>full_header.split("|")[-1]\<close>: what follows the last \<open>|\<close>.\<close>

definition short_header :: "string \<Rightarrow> string" where
  "short_header full_header = rev (takeWhile (\<lambda>c. c \<noteq> CHR ''|'') (rev full_header))"

text \<open>\<open>os.path.basename\<close> (POSIX): what follows the last \<open>/\<close>.\<close>

definition basename :: "string \<Rightarrow> string" where
  "basename path = rev (takeWhile (\<lambda>c. c \<noteq> CHR ''/'') (rev path))"

text \<open>
  \<^verbatim>\<open>
  filename = os.path.basename(tsv_file)
  if "_Y" in filename:      allowed_residues = {"Y"}
  elif "_SorT" in filename: allowed_residues = {"S", "T"}
  else:                     allowed_residues = {"S", "T", "Y"}
  \<close>
  \<open>sub in s\<close> on strings is the contiguous-sublist test.
\<close>

definition allowed_residues :: "string \<Rightarrow> string set" where
  "allowed_residues tsv_file =
     (let filename = basename tsv_file in
      if sublist ''_Y'' filename then {''Y''}
      else if sublist ''_SorT'' filename then {''S'', ''T''}
      else {''S'', ''T'', ''Y''})"

text \<open>
  One row of the reader loop; \<open>results\<close> is the \<open>defaultdict(list)\<close>.
  \<^verbatim>\<open>
  if len(row) < 4: continue
  full_header = row[0]
  short_header = full_header.split("|")[-1]
  try:
      position = int(row[1]); residue = row[2].upper(); score = float(row[3])
  except ValueError: continue
  if residue not in allowed_residues: continue
  if short_header in headers_set:
      results[short_header].append((position, residue, score))
  \<close>
\<close>

definition extract_row ::
  "(string \<Rightarrow> int option) \<Rightarrow> (string \<Rightarrow> real option) \<Rightarrow> string set \<Rightarrow> string set
     \<Rightarrow> (string \<times> site list) list \<Rightarrow> string list \<Rightarrow> (string \<times> site list) list" where
  "extract_row py_int py_float allowed headers_set results row =
     (if length row < 4 then results
      else
        (case py_int (row ! 1) of
           None \<Rightarrow> results
         | Some position \<Rightarrow>
             (let residue = upper (row ! 2) in
              case py_float (row ! 3) of
                None \<Rightarrow> results
              | Some score \<Rightarrow>
                  if residue \<notin> allowed then results
                  else if short_header (row ! 0) \<in> headers_set
                    then dict_append (short_header (row ! 0)) (position, residue, score) results
                    else results)))"

definition extract_rows ::
  "(string \<Rightarrow> int option) \<Rightarrow> (string \<Rightarrow> real option) \<Rightarrow> string \<Rightarrow> string list list
     \<Rightarrow> string list \<Rightarrow> (string \<times> site list) list" where
  "extract_rows py_int py_float tsv_file rows headers =
     foldl (extract_row py_int py_float (allowed_residues tsv_file) (set headers)) [] rows"

text \<open>The errors the two comparisons raise (all \<open>ValueError\<close> in the source).\<close>

datatype error =
    TwoHeadersRequired
  | NoSitesFound "string list"
  | HeadersNotInMSA "string list"
  | NoSitesForEitherHeader
  | NoSitesRemain

text \<open>
  compare/ps_sites.py ends the extraction with
  \<^verbatim>\<open>
  if not results:
      raise ValueError(f"No phosphorylation sites found for: {headers}")
  return results
  \<close>
\<close>

definition extract_sites ::
  "(string \<Rightarrow> int option) \<Rightarrow> (string \<Rightarrow> real option) \<Rightarrow> string \<Rightarrow> string list list
     \<Rightarrow> string list \<Rightarrow> error + (string \<times> site list) list" where
  "extract_sites py_int py_float tsv_file rows headers =
     (let results = extract_rows py_int py_float tsv_file rows headers in
      if results = [] then Inl (NoSitesFound headers) else Inr results)"

text \<open>
  compare/msa_ps_sites.py ends it with
  \<^verbatim>\<open>
  for h in headers:
      results.setdefault(h, [])
  return results
  \<close>
\<close>

definition extract_sites_msa ::
  "(string \<Rightarrow> int option) \<Rightarrow> (string \<Rightarrow> real option) \<Rightarrow> string \<Rightarrow> string list list
     \<Rightarrow> string list \<Rightarrow> (string \<times> site list) list" where
  "extract_sites_msa py_int py_float tsv_file rows headers =
     foldl (\<lambda>results h. setdefault h [] results)
       (extract_rows py_int py_float tsv_file rows headers) headers"


section \<open>The two comparisons\<close>

text \<open>
  compare/ps_sites.py, \<open>compare_phospho_sites\<close>; the report written by \<open>save_to_tsv\<close> is
  the triple it is given.
  \<^verbatim>\<open>
  if len(headers) != 2: raise ValueError(...)
  site_dict = extract_sites(tsv_file, headers)
  header1, header2 = headers
  sites1 = filter_sites_by_cutoff(site_dict.get(header1, []), cutoff)
  sites2 = filter_sites_by_cutoff(site_dict.get(header2, []), cutoff)
  common, unique1, unique2 = find_common_sites(sites1, sites2)
  save_to_tsv(output_file, header1, header2, common, unique1, unique2)
  \<close>
\<close>

definition compare_phospho_sites ::
  "(string \<Rightarrow> int option) \<Rightarrow> (string \<Rightarrow> real option) \<Rightarrow> string \<Rightarrow> string list list
     \<Rightarrow> string list \<Rightarrow> real \<Rightarrow> error + (site_match list \<times> site list \<times> site list)" where
  "compare_phospho_sites py_int py_float tsv_file rows headers cutoff =
     (if length headers \<noteq> 2 then Inl TwoHeadersRequired
      else
        (case extract_sites py_int py_float tsv_file rows headers of
           Inl e \<Rightarrow> Inl e
         | Inr site_dict \<Rightarrow>
             (let header1 = headers ! 0; header2 = headers ! 1;
                  sites1 = filter_sites_by_cutoff (dict_get site_dict header1 []) cutoff;
                  sites2 = filter_sites_by_cutoff (dict_get site_dict header2 []) cutoff
              in Inr (find_common_sites sites1 sites2))))"

text \<open>
  compare/msa_ps_sites.py, \<open>compare_phospho_sites\<close>; \<open>msa\<close> is the dict that
  \<open>parse_fasta\<close> returns (header to aligned string).
  \<^verbatim>\<open>
  if len(headers) != 2: raise ValueError(...)
  msa = parse_fasta(msa_file)
  missing = [h for h in headers if h not in msa]
  if missing: raise ValueError(...)
  pos_maps = {h: map_seq_to_msa_positions(msa[h]) for h in headers}
  site_dict = extract_sites(tsv_file, headers)
  header1, header2 = headers
  if not site_dict[header1] and not site_dict[header2]: raise ValueError(...)
  raw_sites1 = filter_sites_by_cutoff(site_dict.get(header1, []), cutoff)
  raw_sites2 = filter_sites_by_cutoff(site_dict.get(header2, []), cutoff)
  mapped1 = convert_sites_to_msa(raw_sites1, pos_maps[header1])
  mapped2 = convert_sites_to_msa(raw_sites2, pos_maps[header2])
  if not mapped1 and not mapped2: raise ValueError(...)
  common, unique1, unique2 = find_common_sites_msa(mapped1, mapped2)
  \<close>
\<close>

definition pos_map_of :: "(string \<rightharpoonup> string) \<Rightarrow> string \<Rightarrow> (int \<rightharpoonup> int)" where
  "pos_map_of msa h = (case msa h of None \<Rightarrow> Map.empty | Some aligned \<Rightarrow> map_seq_to_msa_positions aligned)"

definition compare_phospho_sites_msa ::
  "(string \<Rightarrow> int option) \<Rightarrow> (string \<Rightarrow> real option) \<Rightarrow> string \<Rightarrow> string list list
     \<Rightarrow> (string \<rightharpoonup> string) \<Rightarrow> string list \<Rightarrow> real
     \<Rightarrow> error + (msa_match list \<times> mapped_site list \<times> mapped_site list)" where
  "compare_phospho_sites_msa py_int py_float tsv_file rows msa headers cutoff =
     (if length headers \<noteq> 2 then Inl TwoHeadersRequired
      else
        (let missing = [h \<leftarrow> headers. msa h = None] in
         if missing \<noteq> [] then Inl (HeadersNotInMSA missing)
         else
           (let site_dict = extract_sites_msa py_int py_float tsv_file rows headers;
                header1 = headers ! 0; header2 = headers ! 1
            in if dict_get site_dict header1 [] = [] \<and> dict_get site_dict header2 [] = []
               then Inl NoSitesForEitherHeader
               else
                 (let raw_sites1 = filter_sites_by_cutoff (dict_get site_dict header1 []) cutoff;
                      raw_sites2 = filter_sites_by_cutoff (dict_get site_dict header2 []) cutoff;
                      mapped1 = convert_sites_to_msa raw_sites1 (pos_map_of msa header1);
                      mapped2 = convert_sites_to_msa raw_sites2 (pos_map_of msa header2)
                  in if mapped1 = [] \<and> mapped2 = [] then Inl NoSitesRemain
                     else Inr (find_common_sites_msa mapped1 mapped2)))))"

section \<open>Properties of the cutoff filter\<close>

text \<open>
  Claim C7. For every site list and cutoff, \<open>filter_sites_by_cutoff\<close> returns exactly
  the sites whose score is at least the cutoff (the threshold is inclusive), each as
  often as it occurs in the input and in input order, and filtering a second time with
  the same cutoff changes nothing.
\<close>

theorem filter_sites_by_cutoff_exact_stable_idempotent:
  "(\<forall>s. count (mset (filter_sites_by_cutoff sites cutoff)) s =
         (if cutoff \<le> snd (snd s) then count (mset sites) s else 0))
   \<and> subseq (filter_sites_by_cutoff sites cutoff) sites
   \<and> filter_sites_by_cutoff (filter_sites_by_cutoff sites cutoff) cutoff =
       filter_sites_by_cutoff sites cutoff"
  by (simp add: filter_sites_by_cutoff_def)

theorem filter_sites_by_cutoff_witness:
  "filter_sites_by_cutoff [(5, ''S'', 3/10), (6, ''T'', 9/10), (7, ''Y'', 1/2)] (1/2) =
     [(6, ''T'', 9/10), (7, ''Y'', 1/2)]
   \<and> subseq (filter_sites_by_cutoff [(5, ''S'', 3/10), (6, ''T'', 9/10), (7, ''Y'', 1/2)] (1/2))
        [(5, ''S'', 3/10), (6, ''T'', 9/10), (7, ''Y'', 1/2)]"
  using filter_sites_by_cutoff_exact_stable_idempotent
    [of "[(5, ''S'', 3/10), (6, ''T'', 9/10), (7, ''Y'', 1/2)]" "1/2"]
  by (simp add: filter_sites_by_cutoff_def)

section \<open>Properties of the coordinate mapper\<close>

lemma map_loop_below: "p \<le> r \<Longrightarrow> map_loop i r m s p = m p"
  by (induction s arbitrary: i r m) auto

lemma map_loop_dom:
  "dom (map_loop i r m s) = dom m \<union> {r + 1 .. r + int (length [c \<leftarrow> s. c \<noteq> CHR ''-'' \<and> c \<noteq> CHR ''.''])}"
proof (induction s arbitrary: i r m)
  case Nil
  then show ?case by simp
next
  case (Cons aa rest)
  define n where "n = int (length [c \<leftarrow> rest. c \<noteq> CHR ''-'' \<and> c \<noteq> CHR ''.''])"
  have n0: "0 \<le> n" by (simp add: n_def)
  show ?case
  proof (cases "aa \<noteq> CHR ''-'' \<and> aa \<noteq> CHR ''.''")
    case True
    have "dom (map_loop i r m (aa # rest)) = dom (map_loop (i + 1) (r + 1) (m(r + 1 \<mapsto> i)) rest)"
      using True by simp
    also have "\<dots> = dom (m(r + 1 \<mapsto> i)) \<union> {r + 1 + 1 .. r + 1 + n}"
      unfolding n_def by (rule Cons.IH)
    also have "\<dots> = dom m \<union> {r + 1 .. r + (1 + n)}"
      using n0 by auto
    finally show ?thesis using True by (simp add: n_def)
  next
    case False
    have "dom (map_loop i r m (aa # rest)) = dom (map_loop (i + 1) r m rest)"
      using False by auto
    also have "\<dots> = dom m \<union> {r + 1 .. r + n}"
      unfolding n_def by (rule Cons.IH)
    finally show ?thesis using False by (auto simp: n_def)
  qed
qed


lemma map_loop_lower:
  "r < p \<Longrightarrow> m p = None \<Longrightarrow> map_loop i r m s p = Some c \<Longrightarrow> i \<le> c \<and> c < i + int (length s)"
proof (induction s arbitrary: i r m)
  case Nil
  then show ?case by simp
next
  case (Cons aa rest)
  show ?case
  proof (cases "aa \<noteq> CHR ''-'' \<and> aa \<noteq> CHR ''.''")
    case True
    then have step: "map_loop (i + 1) (r + 1) (m(r + 1 \<mapsto> i)) rest p = Some c"
      using Cons.prems(3) by simp
    show ?thesis
    proof (cases "p = r + 1")
      case True
      then have "map_loop (i + 1) (r + 1) (m(r + 1 \<mapsto> i)) rest p = (m(r + 1 \<mapsto> i)) p"
        by (simp add: map_loop_below)
      with step True have "c = i" by simp
      then show ?thesis by simp
    next
      case False
      with Cons.prems(1) have "r + 1 < p" by simp
      moreover have "(m(r + 1 \<mapsto> i)) p = None" using False Cons.prems(2) by simp
      ultimately have "i + 1 \<le> c \<and> c < i + 1 + int (length rest)"
        using step by (rule Cons.IH)
      then show ?thesis by simp
    qed
  next
    case False
    then have "map_loop (i + 1) r m rest p = Some c"
      using Cons.prems(3) by auto
    with Cons.prems(1,2) have "i + 1 \<le> c \<and> c < i + 1 + int (length rest)"
      by (rule Cons.IH)
    then show ?thesis by simp
  qed
qed

lemma map_loop_mono:
  "r < p1 \<Longrightarrow> p1 < p2 \<Longrightarrow> m p1 = None \<Longrightarrow> m p2 = None \<Longrightarrow>
   map_loop i r m s p1 = Some c1 \<Longrightarrow> map_loop i r m s p2 = Some c2 \<Longrightarrow> c1 < c2"
proof (induction s arbitrary: i r m)
  case Nil
  then show ?case by simp
next
  case (Cons aa rest)
  show ?case
  proof (cases "aa \<noteq> CHR ''-'' \<and> aa \<noteq> CHR ''.''")
    case True
    then have s1: "map_loop (i + 1) (r + 1) (m(r + 1 \<mapsto> i)) rest p1 = Some c1"
      and s2: "map_loop (i + 1) (r + 1) (m(r + 1 \<mapsto> i)) rest p2 = Some c2"
      using Cons.prems(5,6) by simp_all
    have lt2: "r + 1 < p2" using Cons.prems(1,2) by simp
    have none2: "(m(r + 1 \<mapsto> i)) p2 = None" using lt2 Cons.prems(4) by simp
    show ?thesis
    proof (cases "p1 = r + 1")
      case True
      then have "map_loop (i + 1) (r + 1) (m(r + 1 \<mapsto> i)) rest p1 = (m(r + 1 \<mapsto> i)) p1"
        by (simp add: map_loop_below)
      with s1 True have c1: "c1 = i" by simp
      from lt2 none2 s2 have "i + 1 \<le> c2 \<and> c2 < i + 1 + int (length rest)"
        by (rule map_loop_lower)
      with c1 show ?thesis by simp
    next
      case False
      with Cons.prems(1) have "r + 1 < p1" by simp
      moreover have "(m(r + 1 \<mapsto> i)) p1 = None" using False Cons.prems(3) by simp
      ultimately show ?thesis
        using Cons.prems(2) none2 s1 s2 Cons.IH [of "r + 1" "m(r + 1 \<mapsto> i)" "i + 1"] by blast
    qed
  next
    case False
    then have "map_loop (i + 1) r m rest p1 = Some c1" "map_loop (i + 1) r m rest p2 = Some c2"
      using Cons.prems(5,6) by auto
    with Cons.prems(1-4) show ?thesis
      using Cons.IH [of r m "i + 1"] by blast
  qed
qed


text \<open>
  Claim C5. For every aligned string, the keys of \<open>map_seq_to_msa_positions\<close> are exactly
  \<open>1 .. n\<close>, where \<open>n\<close> counts the characters other than \<open>-\<close> and \<open>.\<close>; a larger raw
  position has a strictly larger column; every column lies within the string; and a
  string of gaps only (the empty string included) gives the empty mapping. The function
  is total: it has no failing branch.
\<close>

theorem map_seq_to_msa_positions_keys_monotone:
  "dom (map_seq_to_msa_positions aligned_seq) =
     {1 .. int (length [c \<leftarrow> aligned_seq. c \<noteq> CHR ''-'' \<and> c \<noteq> CHR ''.''])}
   \<and> (\<forall>p1 p2 c1 c2. map_seq_to_msa_positions aligned_seq p1 = Some c1
          \<and> map_seq_to_msa_positions aligned_seq p2 = Some c2 \<and> p1 < p2 \<longrightarrow> c1 < c2)
   \<and> (\<forall>p c. map_seq_to_msa_positions aligned_seq p = Some c
          \<longrightarrow> 1 \<le> c \<and> c \<le> int (length aligned_seq))
   \<and> ((\<forall>c \<in> set aligned_seq. c = CHR ''-'' \<or> c = CHR ''.'')
        \<longrightarrow> map_seq_to_msa_positions aligned_seq = Map.empty)"
proof -
  let ?f = "map_seq_to_msa_positions aligned_seq"
  have d: "dom ?f = {1 .. int (length [c \<leftarrow> aligned_seq. c \<noteq> CHR ''-'' \<and> c \<noteq> CHR ''.''])}"
    using map_loop_dom [of 1 0 Map.empty aligned_seq]
    by (simp add: map_seq_to_msa_positions_def)
  have pos: "0 < p" if "?f p = Some c" for p c
  proof -
    from that have "p \<in> dom ?f" by blast
    with d show ?thesis by simp
  qed
  have mono: "c1 < c2" if "?f p1 = Some c1" "?f p2 = Some c2" "p1 < p2" for p1 p2 c1 c2
  proof -
    have "0 < p1" using that(1) by (rule pos)
    then show ?thesis
      using that map_loop_mono [of 0 p1 p2 Map.empty 1 aligned_seq c1 c2]
      by (simp add: map_seq_to_msa_positions_def)
  qed
  have rng: "1 \<le> c \<and> c \<le> int (length aligned_seq)" if "?f p = Some c" for p c
  proof -
    have "0 < p" using that by (rule pos)
    then show ?thesis
      using that map_loop_lower [of 0 p Map.empty 1 aligned_seq c]
      by (simp add: map_seq_to_msa_positions_def)
  qed
  have emp: "?f = Map.empty" if "\<forall>c \<in> set aligned_seq. c = CHR ''-'' \<or> c = CHR ''.''"
  proof -
    from that have "[c \<leftarrow> aligned_seq. c \<noteq> CHR ''-'' \<and> c \<noteq> CHR ''.''] = []"
      by (auto simp: filter_empty_conv)
    with d have "dom ?f = {}" by simp
    then show ?thesis by simp
  qed
  show ?thesis
  proof (intro conjI allI impI)
    show "dom ?f = {1 .. int (length [c \<leftarrow> aligned_seq. c \<noteq> CHR ''-'' \<and> c \<noteq> CHR ''.''])}"
      by (rule d)
  next
    fix p1 p2 c1 c2
    assume "?f p1 = Some c1 \<and> ?f p2 = Some c2 \<and> p1 < p2"
    then show "c1 < c2" using mono by blast
  next
    fix p c assume "?f p = Some c"
    then show "1 \<le> c" "c \<le> int (length aligned_seq)" using rng by blast+
  next
    assume "\<forall>c \<in> set aligned_seq. c = CHR ''-'' \<or> c = CHR ''.''"
    then show "?f = Map.empty" by (rule emp)
  qed
qed

theorem map_seq_to_msa_positions_witness:
  "map_seq_to_msa_positions ''MK-TY'' 3 = Some 4
   \<and> map_seq_to_msa_positions ''MK-TY'' 4 = Some 5
   \<and> (4::int) < 5
   \<and> dom (map_seq_to_msa_positions ''MK-TY'') = {1 .. 4}
   \<and> map_seq_to_msa_positions ''-.-'' = Map.empty"
proof -
  have e3: "map_seq_to_msa_positions ''MK-TY'' 3 = Some 4"
    by (simp add: map_seq_to_msa_positions_def)
  have e4: "map_seq_to_msa_positions ''MK-TY'' 4 = Some 5"
    by (simp add: map_seq_to_msa_positions_def)
  note t = map_seq_to_msa_positions_keys_monotone [of "''MK-TY''"]
  from t have d: "dom (map_seq_to_msa_positions ''MK-TY'') = {1 .. 4}"
    by simp
  from t have "\<forall>p1 p2 c1 c2. map_seq_to_msa_positions ''MK-TY'' p1 = Some c1
          \<and> map_seq_to_msa_positions ''MK-TY'' p2 = Some c2 \<and> p1 < p2 \<longrightarrow> c1 < c2"
    by (rule conjunct1 [OF conjunct2])
  with e3 e4 have lt: "(4::int) < 5" by simp
  have "\<forall>c \<in> set ''-.-''. c = CHR ''-'' \<or> c = CHR ''.''" by simp
  with map_seq_to_msa_positions_keys_monotone [of "''-.-''"]
  have e: "map_seq_to_msa_positions ''-.-'' = Map.empty" by blast
  from e3 e4 lt d e show ?thesis by blast
qed

section \<open>Properties of the coordinate conversion\<close>

lemma convert_sites_to_msa_append:
  "convert_sites_to_msa (xs @ ys) pos_map = convert_sites_to_msa xs pos_map @ convert_sites_to_msa ys pos_map"
  by (induction xs pos_map rule: convert_sites_to_msa.induct) (simp_all split: option.splits)

text \<open>
  Claim C8. \<open>convert_sites_to_msa\<close> looks each site's raw position up in the map. Around
  any site of the input, the sites before it and after it are converted as they would
  be alone and stay in order; the site itself contributes nothing when its position is
  not a key of the map, and \<open>(msa_col, raw_pos, residue, score)\<close> when it is. No branch
  fails.
\<close>

theorem convert_sites_to_msa_drops_unmapped:
  "convert_sites_to_msa (before @ (raw_pos, residue, score) # after) pos_map =
     convert_sites_to_msa before pos_map
     @ (case pos_map raw_pos of None \<Rightarrow> [] | Some msa_col \<Rightarrow> [(msa_col, raw_pos, residue, score)])
     @ convert_sites_to_msa after pos_map
   \<and> convert_sites_to_msa [] pos_map = []"
  by (simp add: convert_sites_to_msa_append split: option.splits)

theorem convert_sites_to_msa_witness:
  "convert_sites_to_msa [(3, ''T'', 9/10), (99, ''S'', 4/5), (4, ''Y'', 1/2)]
     (map_seq_to_msa_positions ''MK-TY'') = [(4, 3, ''T'', 9/10), (5, 4, ''Y'', 1/2)]"
  using convert_sites_to_msa_drops_unmapped
    [of "[(3, ''T'', 9/10)]" 99 "''S''" "4/5" "[(4, ''Y'', 1/2)]" "map_seq_to_msa_positions ''MK-TY''"]
  by (simp add: map_seq_to_msa_positions_def)

section \<open>Properties of the delta summarizer\<close>

lemma summarize_step_eq:
  "summarize_step m x =
     m(match_name x \<mapsto> (max (fst (summary_get m (match_name x))) (delta_start x),
                          max (snd (summary_get m (match_name x))) (delta_end x)))"
  by (cases "(m, x)" rule: summarize_step.cases) (simp add: summary_get_def Let_def)

lemma summary_get_step:
  "summary_get (summarize_step m x) name =
     (if match_name x = name
      then (max (fst (summary_get m name)) (delta_start x), max (snd (summary_get m name)) (delta_end x))
      else summary_get m name)"
  by (simp add: summarize_step_eq summary_get_def)

lemma dom_summarize_fold:
  "dom (foldl summarize_step m common) = dom m \<union> match_name ` set common"
proof (induction common arbitrary: m)
  case Nil
  then show ?case by simp
next
  case (Cons x xs)
  have "dom (summarize_step m x) = insert (match_name x) (dom m)"
    by (simp add: summarize_step_eq)
  with Cons.IH [of "summarize_step m x"] show ?case by auto
qed

lemma Max_insert_max:
  "finite S \<Longrightarrow> Max (insert (max a b) S) = Max (insert (a::int) (insert b S))"
  by (cases "S = {}") (simp_all add: max.assoc)

lemma Max_insert_zero:
  "finite S \<Longrightarrow> S \<noteq> {} \<Longrightarrow> \<forall>x \<in> S. (0::int) \<le> x \<Longrightarrow> Max (insert 0 S) = Max S"
  by (simp add: max_def Max_ge_iff)

lemma summary_get_fold:
  "summary_get (foldl summarize_step m common) name =
     (Max (insert (fst (summary_get m name)) (delta_start ` {x \<in> set common. match_name x = name})),
      Max (insert (snd (summary_get m name)) (delta_end ` {x \<in> set common. match_name x = name})))"
proof (induction common arbitrary: m)
  case Nil
  then show ?case by simp
next
  case (Cons x xs)
  let ?S = "{y \<in> set xs. match_name y = name}"
  show ?case
  proof (cases "match_name x = name")
    case True
    then have S: "{y \<in> set (x # xs). match_name y = name} = insert x ?S" by auto
    have fin: "finite (delta_start ` ?S)" "finite (delta_end ` ?S)" by simp_all
    have a: "Max (insert (max a (delta_start x)) (delta_start ` ?S)) =
             Max (insert a (insert (delta_start x) (delta_start ` ?S)))" for a
      using fin(1) by (rule Max_insert_max)
    have b: "Max (insert (max a (delta_end x)) (delta_end ` ?S)) =
             Max (insert a (insert (delta_end x) (delta_end ` ?S)))" for a
      using fin(2) by (rule Max_insert_max)
    have "summary_get (foldl summarize_step m (x # xs)) name =
          summary_get (foldl summarize_step (summarize_step m x) xs) name" by simp
    also have "\<dots> =
       (Max (insert (fst (summary_get (summarize_step m x) name)) (delta_start ` ?S)),
        Max (insert (snd (summary_get (summarize_step m x) name)) (delta_end ` ?S)))"
      by (rule Cons.IH)
    also have "\<dots> =
       (Max (insert (fst (summary_get m name)) (insert (delta_start x) (delta_start ` ?S))),
        Max (insert (snd (summary_get m name)) (insert (delta_end x) (delta_end ` ?S))))"
      using True by (simp only: summary_get_step refl if_True fst_conv snd_conv a b)
    finally show ?thesis by (simp only: S image_insert)
  next
    case False
    then have S: "{y \<in> set (x # xs). match_name y = name} = ?S" by auto
    have "summary_get (foldl summarize_step m (x # xs)) name =
          summary_get (foldl summarize_step (summarize_step m x) xs) name" by simp
    also have "\<dots> =
       (Max (insert (fst (summary_get (summarize_step m x) name)) (delta_start ` ?S)),
        Max (insert (snd (summary_get (summarize_step m x) name)) (delta_end ` ?S)))"
      by (rule Cons.IH)
    also have "\<dots> =
       (Max (insert (fst (summary_get m name)) (delta_start ` ?S)),
        Max (insert (snd (summary_get m name)) (delta_end ` ?S)))"
      using False by (simp only: summary_get_step if_False)
    finally show ?thesis by (simp only: S)
  qed
qed

lemma delta_nonneg: "0 \<le> delta_start x" "0 \<le> delta_end x"
  by (cases x rule: delta_start.cases; simp)+

text \<open>
  Claim C9. The keys of \<open>summarize_distances\<close> are exactly the labels of the match
  records it is given, so a label without a common match has no entry; and the entry of
  a label is the largest \<open>|start_A - start_B|\<close> and the largest \<open>|end_A - end_B|\<close> over
  all match records with that label.
\<close>

theorem summarize_distances_worst_case:
  "dom (summarize_distances common) = match_name ` set common
   \<and> (\<forall>name \<in> match_name ` set common.
         summarize_distances common name =
           Some (Max (delta_start ` {x \<in> set common. match_name x = name}),
                 Max (delta_end ` {x \<in> set common. match_name x = name})))"
proof (intro conjI ballI)
  show d: "dom (summarize_distances common) = match_name ` set common"
    by (simp add: summarize_distances_def dom_summarize_fold)
  fix name assume n: "name \<in> match_name ` set common"
  let ?S = "{x \<in> set common. match_name x = name}"
  from n obtain y where "y \<in> set common" "match_name y = name" by blast
  then have "y \<in> ?S" by simp
  then have ne: "?S \<noteq> {}" by blast
  have fin: "finite (delta_start ` ?S)" "finite (delta_end ` ?S)" by simp_all
  from n d obtain v where v: "summarize_distances common name = Some v" by blast
  then have "v = summary_get (summarize_distances common) name"
    by (simp add: summary_get_def)
  also have "\<dots> = (Max (insert 0 (delta_start ` ?S)), Max (insert 0 (delta_end ` ?S)))"
    by (simp add: summarize_distances_def summary_get_fold del: Max_insert)
      (simp add: summary_get_def)
  also have "Max (insert 0 (delta_start ` ?S)) = Max (delta_start ` ?S)"
    using fin(1) ne by (intro Max_insert_zero) (auto simp: delta_nonneg)
  also have "Max (insert 0 (delta_end ` ?S)) = Max (delta_end ` ?S)"
    using fin(2) ne by (intro Max_insert_zero) (auto simp: delta_nonneg)
  finally show "summarize_distances common name =
           Some (Max (delta_start ` ?S), Max (delta_end ` ?S))"
    using v by simp
qed

theorem summarize_distances_witness:
  "summarize_distances
     [(''Kinase'', (10, 50), (12, 55), ''tool1'', ''tool2''),
      (''SH2'', (100, 130), (100, 131), ''tool1'', ''tool2''),
      (''Kinase'', (200, 250), (191, 251), ''tool1'', ''tool2'')] ''Kinase'' = Some (9, 5)
   \<and> summarize_distances
     [(''Kinase'', (10, 50), (12, 55), ''tool1'', ''tool2''),
      (''SH2'', (100, 130), (100, 131), ''tool1'', ''tool2''),
      (''Kinase'', (200, 250), (191, 251), ''tool1'', ''tool2'')] ''WD40'' = None"
proof -
  let ?common = "[(''Kinase'', (10, 50), (12, 55), ''tool1'', ''tool2''),
      (''SH2'', (100, 130), (100, 131), ''tool1'', ''tool2''),
      (''Kinase'', (200, 250), (191, 251), ''tool1'', ''tool2'')] :: domain_match list"
  note t = summarize_distances_worst_case [of ?common]
  have S: "{x \<in> set ?common. match_name x = ''Kinase''} =
           {(''Kinase'', (10, 50), (12, 55), ''tool1'', ''tool2''),
            (''Kinase'', (200, 250), (191, 251), ''tool1'', ''tool2'')}"
    by auto
  have "''Kinase'' \<in> match_name ` set ?common" by simp
  with t have "summarize_distances ?common ''Kinase'' =
      Some (Max (delta_start ` {x \<in> set ?common. match_name x = ''Kinase''}),
            Max (delta_end ` {x \<in> set ?common. match_name x = ''Kinase''}))"
    by blast
  then have a: "summarize_distances ?common ''Kinase'' = Some (9, 5)"
    unfolding S by simp
  from t have "dom (summarize_distances ?common) = match_name ` set ?common" by blast
  then have "''WD40'' \<notin> dom (summarize_distances ?common)" by simp
  then have b: "summarize_distances ?common ''WD40'' = None" by blast
  from a b show ?thesis by blast
qed

section \<open>Properties of the alignment-mode site matcher\<close>

lemma map_insort_key:
  "map g (insort_key (\<lambda>x. f (g x)) a xs) = insort_key f (g a) (map g xs)"
  by (induction xs) simp_all

lemma map_sort_key:
  "map g (sort_key (\<lambda>x. f (g x)) xs) = sort_key f (map g xs)"
  by (induction xs) (simp_all add: map_insort_key)

lemma index2_fold_None:
  "(foldl index2_step m mapped2 k = None) = (m k = None \<and> k \<notin> msa_key ` set mapped2)"
proof (induction mapped2 arbitrary: m)
  case Nil
  then show ?case by simp
next
  case (Cons b bs)
  obtain col raw res sc where b: "b = (col, raw, res, sc)" by (cases b) auto
  show ?case by (auto simp: Cons.IH b msa_key_def)
qed

lemma index2_fold_Some:
  "foldl index2_step m mapped2 k = Some (raw2, score2) \<Longrightarrow>
   m k = Some (raw2, score2) \<or> (fst k, raw2, snd k, score2) \<in> set mapped2"
proof (induction mapped2 arbitrary: m)
  case Nil
  then show ?case by simp
next
  case (Cons b bs)
  obtain col raw res sc where b: "b = (col, raw, res, sc)" by (cases b) auto
  from Cons.prems have
    "foldl index2_step (m((col, res) \<mapsto> (raw, sc))) bs k = Some (raw2, score2)"
    by (simp add: b)
  then have "(m((col, res) \<mapsto> (raw, sc))) k = Some (raw2, score2)
             \<or> (fst k, raw2, snd k, score2) \<in> set bs"
    by (rule Cons.IH)
  then show ?case by (auto simp: b split: if_splits)
qed

lemma build_index2_None: "(build_index2 mapped2 k = None) = (k \<notin> msa_key ` set mapped2)"
  by (simp add: build_index2_def index2_fold_None)

lemma build_index2_Some:
  "build_index2 mapped2 k = Some (raw2, score2) \<Longrightarrow> (fst k, raw2, snd k, score2) \<in> set mapped2"
  using index2_fold_Some [of Map.empty mapped2 k raw2 score2] by (simp add: build_index2_def)

text \<open>The loop over \<open>mapped1\<close>, one component of the state at a time.\<close>

lemma msa_fold_unique1:
  "fst (snd (foldl (msa_step index2) (c, u, k) mapped1)) =
     u @ [a \<leftarrow> mapped1. index2 (msa_key a) = None]"
proof (induction mapped1 arbitrary: c u k)
  case Nil
  then show ?case by simp
next
  case (Cons a as)
  obtain col raw res sc where a: "a = (col, raw, res, sc)" by (cases a) auto
  show ?case by (simp add: a Cons.IH msa_key_def split: option.splits)
qed

lemma msa_fold_matched:
  "snd (snd (foldl (msa_step index2) (c, u, k) mapped1)) =
     k \<union> {key \<in> msa_key ` set mapped1. index2 key \<noteq> None}"
proof (induction mapped1 arbitrary: c u k)
  case Nil
  then show ?case by simp
next
  case (Cons a as)
  obtain col raw res sc where a: "a = (col, raw, res, sc)" by (cases a) auto
  show ?case by (auto simp: a Cons.IH msa_key_def split: option.splits)
qed

lemma msa_fold_common_side1:
  "map msa_side1 (fst (foldl (msa_step index2) (c, u, k) mapped1)) =
     map msa_side1 c @ [a \<leftarrow> mapped1. index2 (msa_key a) \<noteq> None]"
proof (induction mapped1 arbitrary: c u k)
  case Nil
  then show ?case by simp
next
  case (Cons a as)
  obtain col raw res sc where a: "a = (col, raw, res, sc)" by (cases a) auto
  show ?case by (simp add: a Cons.IH msa_key_def split: option.splits)
qed

lemma msa_fold_common_side2:
  "\<forall>m \<in> set c. msa_side2 m \<in> set mapped2 \<Longrightarrow>
   \<forall>m \<in> set (fst (foldl (msa_step (build_index2 mapped2)) (c, u, k) mapped1)).
      msa_side2 m \<in> set mapped2"
proof (induction mapped1 arbitrary: c u k)
  case Nil
  then show ?case by simp
next
  case (Cons a as)
  obtain col raw res sc where a: "a = (col, raw, res, sc)" by (cases a) auto
  show ?case
  proof (cases "build_index2 mapped2 (col, res)")
    case None
    then show ?thesis using Cons by (simp add: a)
  next
    case (Some v)
    obtain raw2 sc2 where v: "v = (raw2, sc2)" by (cases v) auto
    from Some v have "(col, raw2, res, sc2) \<in> set mapped2"
      using build_index2_Some [of mapped2 "(col, res)" raw2 sc2] by simp
    with Cons.prems have "\<forall>m \<in> set (c @ [(col, raw, raw2, res, sc, sc2)]). msa_side2 m \<in> set mapped2"
      by simp
    then have "\<forall>m \<in> set (fst (foldl (msa_step (build_index2 mapped2))
        (c @ [(col, raw, raw2, res, sc, sc2)], u, insert (col, res) k) as)). msa_side2 m \<in> set mapped2"
      by (rule Cons.IH)
    then show ?thesis using Some v by (simp add: a)
  qed
qed


lemma fst_msa_side1: "fst (msa_side1 m) = fst m"
  by (cases m rule: msa_side1.cases) simp

lemma msa_key_sides: "msa_key (msa_side2 m) = msa_key (msa_side1 m)"
  by (cases m rule: msa_side1.cases) (simp add: msa_key_def)

lemma map_side1_sort: "map msa_side1 (sort_key fst c) = sort_key fst (map msa_side1 c)"
  using map_sort_key [of msa_side1 fst c] by (simp add: fst_msa_side1)

lemma find_common_sites_msa_parts:
  assumes "find_common_sites_msa mapped1 mapped2 = (common, unique1, unique2)"
  shows "map msa_side1 common = sort_key fst [a \<leftarrow> mapped1. msa_key a \<in> msa_key ` set mapped2]"
    and "\<forall>m \<in> set common. msa_side2 m \<in> set mapped2"
    and "unique1 = sort_key fst [a \<leftarrow> mapped1. msa_key a \<notin> msa_key ` set mapped2]"
    and "unique2 = sort_key fst [b \<leftarrow> mapped2. msa_key b \<notin> msa_key ` set mapped1]"
proof -
  let ?ix = "build_index2 mapped2"
  obtain c u k where f: "foldl (msa_step ?ix) ([], [], {}) mapped1 = (c, u, k)"
    by (cases "foldl (msa_step ?ix) ([], [], {}) mapped1") auto
  have "find_common_sites_msa mapped1 mapped2 =
      (sort_key fst c, sort_key fst u, sort_key fst [s \<leftarrow> mapped2. msa_key s \<notin> k])"
    by (simp add: find_common_sites_msa_def f)
  with assms have e: "common = sort_key fst c" "unique1 = sort_key fst u"
    "unique2 = sort_key fst [s \<leftarrow> mapped2. msa_key s \<notin> k]"
    by simp_all
  have c1: "map msa_side1 c = [a \<leftarrow> mapped1. msa_key a \<in> msa_key ` set mapped2]"
    using msa_fold_common_side1 [of ?ix "[]" "[]" "{}" mapped1]
    by (simp add: f build_index2_None)
  have c2: "\<forall>m \<in> set c. msa_side2 m \<in> set mapped2"
    using msa_fold_common_side2 [of "[]" mapped2 "[]" "{}" mapped1] by (simp add: f)
  have u1: "u = [a \<leftarrow> mapped1. msa_key a \<notin> msa_key ` set mapped2]"
    using msa_fold_unique1 [of ?ix "[]" "[]" "{}" mapped1]
    by (simp add: f build_index2_None)
  have k: "k = msa_key ` set mapped1 \<inter> msa_key ` set mapped2"
    using msa_fold_matched [of ?ix "[]" "[]" "{}" mapped1]
    by (auto simp: f build_index2_None)
  have u2: "[s \<leftarrow> mapped2. msa_key s \<notin> k] = [b \<leftarrow> mapped2. msa_key b \<notin> msa_key ` set mapped1]"
    unfolding k by (rule filter_cong) auto
  show "map msa_side1 common = sort_key fst [a \<leftarrow> mapped1. msa_key a \<in> msa_key ` set mapped2]"
    unfolding e by (simp only: map_side1_sort c1)
  show "\<forall>m \<in> set common. msa_side2 m \<in> set mapped2"
    unfolding e using c2 by simp
  show "unique1 = sort_key fst [a \<leftarrow> mapped1. msa_key a \<notin> msa_key ` set mapped2]"
    unfolding e by (simp only: u1)
  show "unique2 = sort_key fst [b \<leftarrow> mapped2. msa_key b \<notin> msa_key ` set mapped1]"
    unfolding e by (simp only: u2)
qed

text \<open>
  Claim C6. In \<open>find_common_sites_msa\<close> an entry of \<open>mapped1\<close> is matched exactly when
  some entry of \<open>mapped2\<close> has the same alignment column and the same residue: the
  first sides of the match records are those entries of \<open>mapped1\<close>, every second side is
  an entry of \<open>mapped2\<close> with that column and residue (the raw positions are free to
  differ), and the other entries of \<open>mapped1\<close> are unique to the first sequence. The
  entries of \<open>mapped2\<close> whose column and residue occur nowhere in \<open>mapped1\<close> are unique to
  the second. All three lists are sorted by alignment column, stably.
\<close>

theorem find_common_sites_msa_by_column_and_residue:
  "(case find_common_sites_msa mapped1 mapped2 of
      (common, unique1, unique2) \<Rightarrow>
        map msa_side1 common = sort_key fst [a \<leftarrow> mapped1. msa_key a \<in> msa_key ` set mapped2]
        \<and> (\<forall>m \<in> set common. msa_side2 m \<in> set mapped2
               \<and> msa_key (msa_side2 m) = msa_key (msa_side1 m))
        \<and> unique1 = sort_key fst [a \<leftarrow> mapped1. msa_key a \<notin> msa_key ` set mapped2]
        \<and> unique2 = sort_key fst [b \<leftarrow> mapped2. msa_key b \<notin> msa_key ` set mapped1]
        \<and> sorted (map fst common) \<and> sorted (map fst unique1) \<and> sorted (map fst unique2))"
proof -
  obtain common unique1 unique2 where
    r: "find_common_sites_msa mapped1 mapped2 = (common, unique1, unique2)"
    by (cases "find_common_sites_msa mapped1 mapped2") auto
  note p = find_common_sites_msa_parts [OF r]
  have "map fst common = map fst (map msa_side1 common)"
    by (simp add: fst_msa_side1)
  then have s1: "sorted (map fst common)" unfolding p(1) by simp
  have s2: "sorted (map fst unique1)" unfolding p(3) by simp
  have s3: "sorted (map fst unique2)" unfolding p(4) by simp
  have k: "\<forall>m \<in> set common. msa_side2 m \<in> set mapped2
      \<and> msa_key (msa_side2 m) = msa_key (msa_side1 m)"
    using p(2) by (simp add: msa_key_sides)
  from p(1) k p(3) p(4) s1 s2 s3 show ?thesis unfolding r prod.case by (intro conjI)
qed

theorem find_common_sites_msa_witness:
  "find_common_sites_msa
     [(7, 6, ''S'', 1/2), (4, 3, ''T'', 9/10), (2, 2, ''Y'', 3/5)]
     [(9, 9, ''Y'', 7/10), (4, 4, ''T'', 4/5), (7, 7, ''T'', 1/5)] =
   ([(4, 3, 4, ''T'', 9/10, 4/5)],
    [(2, 2, ''Y'', 3/5), (7, 6, ''S'', 1/2)],
    [(7, 7, ''T'', 1/5), (9, 9, ''Y'', 7/10)])
   \<and> msa_side2 (4, 3, 4, ''T'', 9/10, 4/5) \<in>
        set [(9, 9, ''Y'', 7/10), (4, 4, ''T'', 4/5), (7, 7, ''T'', 1/5 :: real)]"
proof -
  have e: "find_common_sites_msa
     [(7, 6, ''S'', 1/2), (4, 3, ''T'', 9/10), (2, 2, ''Y'', 3/5)]
     [(9, 9, ''Y'', 7/10), (4, 4, ''T'', 4/5), (7, 7, ''T'', 1/5)] =
   ([(4, 3, 4, ''T'', 9/10, 4/5)],
    [(2, 2, ''Y'', 3/5), (7, 6, ''S'', 1/2)],
    [(7, 7, ''T'', 1/5), (9, 9, ''Y'', 7/10)])"
    by (simp add: find_common_sites_msa_def build_index2_def msa_key_def)
  from find_common_sites_msa_by_column_and_residue
    [where ?mapped1.0 = "[(7, 6, ''S'', 1/2), (4, 3, ''T'', 9/10), (2, 2, ''Y'', 3/5)]"
       and ?mapped2.0 = "[(9, 9, ''Y'', 7/10), (4, 4, ''T'', 4/5), (7, 7, ''T'', 1/5)]"]
  have "\<forall>m \<in> set [(4, 3, 4, ''T'', 9/10, 4/5 :: real)].
          msa_side2 m \<in> set [(9, 9, ''Y'', 7/10), (4, 4, ''T'', 4/5), (7, 7, ''T'', 1/5)]
          \<and> msa_key (msa_side2 m) = msa_key (msa_side1 m)"
    unfolding e prod.case by (elim conjE)
  then have "msa_side2 (4, 3, 4, ''T'', 9/10, 4/5) \<in>
        set [(9, 9, ''Y'', 7/10), (4, 4, ''T'', 4/5), (7, 7, ''T'', 1/5 :: real)]"
    by simp
  with e show ?thesis by blast
qed

section \<open>Properties of the raw-mode site matcher\<close>

lemma first_match_find:
  "first_match pos1 res1 sites2 = find (\<lambda>b. site_key b = (pos1, res1)) sites2"
  by (induction pos1 res1 sites2 rule: first_match.induct) (auto simp: site_key_def)

lemma first_match_None:
  "(first_match pos1 res1 sites2 = None) = ((pos1, res1) \<notin> site_key ` set sites2)"
proof -
  have "(first_match pos1 res1 sites2 = None) = (\<not> (\<exists>b. b \<in> set sites2 \<and> site_key b = (pos1, res1)))"
    unfolding first_match_find find_None_iff ..
  also have "\<dots> = ((pos1, res1) \<notin> site_key ` set sites2)"
    by (metis (no_types, lifting) image_iff)
  finally show ?thesis .
qed

lemma first_match_None_site:
  "(site_key (p, r, s) \<notin> site_key ` set sites2) = (first_match p r sites2 = None)"
  using first_match_None [of p r sites2] by (simp add: site_key_def)

lemma first_match_key:
  "first_match pos1 res1 sites2 = Some s2 \<Longrightarrow> site_key s2 = (pos1, res1) \<and> s2 \<in> set sites2"
  by (auto simp: first_match_find find_Some_iff)

text \<open>The loop over \<open>sites1\<close>, one component of the state at a time.\<close>

lemma sites_fold_unique1:
  "fst (snd (foldl (sites_step sites2) (c, u, v) sites1)) =
     u @ [a \<leftarrow> sites1. site_key a \<notin> site_key ` set sites2]"
proof (induction sites1 arbitrary: c u v)
  case Nil
  then show ?case by simp
next
  case (Cons a as)
  obtain p r s where a: "a = (p, r, s)" by (cases a) auto
  show ?case
    by (cases "first_match p r sites2")
      (simp_all add: a Cons.IH first_match_None_site)
qed

lemma sites_fold_side1:
  "map site_side1 (fst (foldl (sites_step sites2) (c, u, v) sites1)) =
     map site_side1 c @ [a \<leftarrow> sites1. site_key a \<in> site_key ` set sites2]"
proof (induction sites1 arbitrary: c u v)
  case Nil
  then show ?case by simp
next
  case (Cons a as)
  obtain p r s where a: "a = (p, r, s)" by (cases a) auto
  show ?case
    by (cases "first_match p r sites2")
      (simp_all add: a Cons.IH first_match_None_site)
qed

lemma sites_fold_first:
  "\<forall>m \<in> set c. find (\<lambda>b. site_key b = site_key (site_side1 m)) sites2 = Some (site_side2 m) \<Longrightarrow>
   \<forall>m \<in> set (fst (foldl (sites_step sites2) (c, u, v) sites1)).
      find (\<lambda>b. site_key b = site_key (site_side1 m)) sites2 = Some (site_side2 m)"
proof (induction sites1 arbitrary: c u v)
  case Nil
  then show ?case by simp
next
  case (Cons a as)
  obtain p r s where a: "a = (p, r, s)" by (cases a) auto
  show ?case
  proof (cases "first_match p r sites2")
    case None
    then show ?thesis using Cons by (simp add: a)
  next
    case (Some s2)
    obtain p2 r2 sc2 where s2: "s2 = (p2, r2, sc2)" by (cases s2) auto
    from Some have k: "p2 = p" "r2 = r"
      using first_match_key [of p r sites2 s2] by (simp_all add: s2 site_key_def)
    from Some have "find (\<lambda>b. site_key b = (p, r)) sites2 = Some (p, r, sc2)"
      by (simp add: first_match_find s2 k)
    with Cons.prems have
      "\<forall>m \<in> set (c @ [(p, r, s, sc2)]).
         find (\<lambda>b. site_key b = site_key (site_side1 m)) sites2 = Some (site_side2 m)"
      by (simp add: site_key_def)
    then have "\<forall>m \<in> set (fst (foldl (sites_step sites2)
        (c @ [(p, r, s, sc2)], u, if s2 \<in> set v then remove1 s2 v else v) as)).
         find (\<lambda>b. site_key b = site_key (site_side1 m)) sites2 = Some (site_side2 m)"
      by (rule Cons.IH)
    then show ?thesis using Some by (simp add: a s2)
  qed
qed

lemma sites_fold_side2:
  "map site_side2 (fst (foldl (sites_step sites2) (c, u, v) sites1)) =
     map site_side2 c @ List.map_filter (\<lambda>a. first_match (fst a) (fst (snd a)) sites2) sites1"
proof (induction sites1 arbitrary: c u v)
  case Nil
  then show ?case by (simp add: List.map_filter_simps)
next
  case (Cons a as)
  obtain p r s where a: "a = (p, r, s)" by (cases a) auto
  show ?case
  proof (cases "first_match p r sites2")
    case None
    then show ?thesis by (simp add: a Cons.IH List.map_filter_simps)
  next
    case (Some s2)
    obtain p2 r2 sc2 where s2: "s2 = (p2, r2, sc2)" by (cases s2) auto
    from Some have k: "p2 = p" "r2 = r"
      using first_match_key [of p r sites2 s2] by (simp_all add: s2 site_key_def)
    show ?thesis using Some by (simp add: a Cons.IH List.map_filter_simps s2 k)
  qed
qed

lemma sites_fold_unique2:
  "mset (snd (snd (foldl (sites_step sites2) (c, u, v) sites1))) =
     mset v - mset (List.map_filter (\<lambda>a. first_match (fst a) (fst (snd a)) sites2) sites1)"
proof (induction sites1 arbitrary: c u v)
  case Nil
  then show ?case by (simp add: List.map_filter_simps)
next
  case (Cons a as)
  obtain p r s where a: "a = (p, r, s)" by (cases a) auto
  show ?case
  proof (cases "first_match p r sites2")
    case None
    then show ?thesis by (simp add: a Cons.IH List.map_filter_simps)
  next
    case (Some s2)
    have "mset (if s2 \<in> set v then remove1 s2 v else v) = mset v - {#s2#}"
      by (simp add: diff_single_trivial)
    then show ?thesis using Some
      by (simp add: a Cons.IH List.map_filter_simps)
  qed
qed


lemma fst_site_side1: "fst (site_side1 m) = fst m"
  by (cases m rule: site_side1.cases) simp

lemma fst_site_side2: "fst (site_side2 m) = fst m"
  by (cases m rule: site_side2.cases) simp

lemma site_key_sides: "site_key (site_side2 m) = site_key (site_side1 m)"
  by (cases m rule: site_side1.cases) (simp add: site_key_def)

lemma map_site_side1_sort: "map site_side1 (sort_key fst c) = sort_key fst (map site_side1 c)"
  using map_sort_key [of site_side1 fst c] by (simp add: fst_site_side1)

lemma find_common_sites_parts:
  assumes "find_common_sites sites1 sites2 = (common, unique1, unique2)"
  shows "map site_side1 common = sort_key fst [a \<leftarrow> sites1. site_key a \<in> site_key ` set sites2]"
    and "\<forall>m \<in> set common.
           find (\<lambda>b. site_key b = site_key (site_side1 m)) sites2 = Some (site_side2 m)"
    and "unique1 = sort_key fst [a \<leftarrow> sites1. site_key a \<notin> site_key ` set sites2]"
    and "mset unique2 = mset sites2 - mset (map site_side2 common)"
proof -
  obtain c u v where f: "foldl (sites_step sites2) ([], [], sites2) sites1 = (c, u, v)"
    by (cases "foldl (sites_step sites2) ([], [], sites2) sites1") auto
  have "find_common_sites sites1 sites2 = (sort_key fst c, sort_key fst u, sort_key fst v)"
    by (simp add: find_common_sites_def f)
  with assms have e: "common = sort_key fst c" "unique1 = sort_key fst u" "unique2 = sort_key fst v"
    by simp_all
  have c1: "map site_side1 c = [a \<leftarrow> sites1. site_key a \<in> site_key ` set sites2]"
    using sites_fold_side1 [of sites2 "[]" "[]" sites2 sites1] by (simp add: f)
  have c2: "\<forall>m \<in> set c. find (\<lambda>b. site_key b = site_key (site_side1 m)) sites2 = Some (site_side2 m)"
    using sites_fold_first [of "[]" sites2 "[]" sites2 sites1] by (simp add: f)
  have u1: "u = [a \<leftarrow> sites1. site_key a \<notin> site_key ` set sites2]"
    using sites_fold_unique1 [of sites2 "[]" "[]" sites2 sites1] by (simp add: f)
  have "mset (map site_side2 c) =
        mset (List.map_filter (\<lambda>a. first_match (fst a) (fst (snd a)) sites2) sites1)"
    using sites_fold_side2 [of sites2 "[]" "[]" sites2 sites1] by (simp add: f)
  moreover have "mset v =
        mset sites2 - mset (List.map_filter (\<lambda>a. first_match (fst a) (fst (snd a)) sites2) sites1)"
    using sites_fold_unique2 [of sites2 "[]" "[]" sites2 sites1] by (simp add: f)
  ultimately have v: "mset v = mset sites2 - mset (map site_side2 c)" by simp
  have ms: "mset (map site_side2 (sort_key fst c)) = mset (map site_side2 c)"
    by simp
  show "map site_side1 common = sort_key fst [a \<leftarrow> sites1. site_key a \<in> site_key ` set sites2]"
    unfolding e by (simp only: map_site_side1_sort c1)
  show "\<forall>m \<in> set common.
           find (\<lambda>b. site_key b = site_key (site_side1 m)) sites2 = Some (site_side2 m)"
    unfolding e using c2 by simp
  show "unique1 = sort_key fst [a \<leftarrow> sites1. site_key a \<notin> site_key ` set sites2]"
    unfolding e by (simp only: u1)
  show "mset unique2 = mset sites2 - mset (map site_side2 common)"
    unfolding e ms using v by simp
qed

lemma sites_fold_unique2_list:
  "snd (snd (foldl (sites_step sites2) (c, u, v) sites1)) =
     fold remove1 (List.map_filter (\<lambda>a. first_match (fst a) (fst (snd a)) sites2) sites1) v"
proof (induction sites1 arbitrary: c u v)
  case Nil
  then show ?case by (simp add: List.map_filter_simps)
next
  case (Cons a as)
  obtain p r s where a: "a = (p, r, s)" by (cases a) auto
  show ?case
  proof (cases "first_match p r sites2")
    case None
    then show ?thesis by (simp add: a Cons.IH List.map_filter_simps)
  next
    case (Some s2)
    have "(if s2 \<in> set v then remove1 s2 v else v) = remove1 s2 v"
      by (simp add: remove1_idem)
    then show ?thesis using Some
      by (simp add: a Cons.IH List.map_filter_simps)
  qed
qed

lemma fold_remove1_mset:
  "mset xs = mset ys \<Longrightarrow> fold remove1 xs zs = fold remove1 ys zs"
proof -
  assume m: "mset xs = mset ys"
  have "fold remove1 xs = fold remove1 ys"
  proof (rule fold_multiset_equiv)
    show "remove1 x \<circ> remove1 y = remove1 y \<circ> remove1 x" for x y :: 'a
      by (rule ext) (simp add: remove1_commute)
    show "mset xs = mset ys" by (rule m)
  qed
  then show ?thesis by simp
qed

lemma find_common_sites_unique2:
  assumes "find_common_sites sites1 sites2 = (common, unique1, unique2)"
  shows "unique2 = sort_key fst (fold remove1 (map site_side2 common) sites2)"
proof -
  obtain c u v where f: "foldl (sites_step sites2) ([], [], sites2) sites1 = (c, u, v)"
    by (cases "foldl (sites_step sites2) ([], [], sites2) sites1") auto
  have "find_common_sites sites1 sites2 = (sort_key fst c, sort_key fst u, sort_key fst v)"
    by (simp add: find_common_sites_def f)
  with assms have e: "common = sort_key fst c" "unique2 = sort_key fst v" by simp_all
  let ?bs = "List.map_filter (\<lambda>a. first_match (fst a) (fst (snd a)) sites2) sites1"
  have s2: "map site_side2 c = ?bs"
    using sites_fold_side2 [of sites2 "[]" "[]" sites2 sites1] by (simp add: f)
  have v: "v = fold remove1 ?bs sites2"
    using sites_fold_unique2_list [of sites2 "[]" "[]" sites2 sites1] by (simp add: f)
  have "mset (map site_side2 common) = mset ?bs" unfolding e s2 [symmetric] by simp
  then have "fold remove1 (map site_side2 common) sites2 = fold remove1 ?bs sites2"
    by (rule fold_remove1_mset)
  with v show ?thesis unfolding e(2) by simp
qed

text \<open>
  Claim C2, as the code has it. In \<open>find_common_sites\<close> an entry of \<open>sites1\<close> is matched
  exactly when some entry of \<open>sites2\<close> has the same position and the same residue. It is
  paired with the first such entry in the order of \<open>sites2\<close>, whether or not an earlier
  entry of \<open>sites1\<close> was paired with that entry already: the inner loop scans \<open>sites2\<close>
  itself, and the guard \<open>if s2 in unique2\<close> skips the removal the second time. The
  unmatched entries of \<open>sites1\<close> are unique to the first sequence, and the list unique to
  the second is \<open>sites2\<close> with the first remaining copy of the paired entry taken away
  per match record, as long as a copy is left. Each of the three lists is returned
  sorted by position, stably.
\<close>

theorem find_common_sites_first_key_match:
  "(case find_common_sites sites1 sites2 of
      (common, unique1, unique2) \<Rightarrow>
        map site_side1 common = sort_key fst [a \<leftarrow> sites1. site_key a \<in> site_key ` set sites2]
        \<and> (\<forall>m \<in> set common.
              find (\<lambda>b. site_key b = site_key (site_side1 m)) sites2 = Some (site_side2 m))
        \<and> unique1 = sort_key fst [a \<leftarrow> sites1. site_key a \<notin> site_key ` set sites2]
        \<and> mset unique2 = mset sites2 - mset (map site_side2 common)
        \<and> unique2 = sort_key fst (fold remove1 (map site_side2 common) sites2)
        \<and> sorted (map fst common) \<and> sorted (map fst unique1) \<and> sorted (map fst unique2))"
proof -
  obtain common unique1 unique2 where
    r: "find_common_sites sites1 sites2 = (common, unique1, unique2)"
    by (cases "find_common_sites sites1 sites2") auto
  note p = find_common_sites_parts [OF r]
  note q = find_common_sites_unique2 [OF r]
  have "map fst common = map fst (map site_side1 common)"
    by (simp add: fst_site_side1)
  then have s1: "sorted (map fst common)" unfolding p(1) by simp
  have s2: "sorted (map fst unique1)" unfolding p(3) by simp
  have s3: "sorted (map fst unique2)" by (subst q) simp
  from p q s1 s2 s3 show ?thesis unfolding r prod.case by (intro conjI)
qed

theorem find_common_sites_witness:
  "find_common_sites [(8, ''T'', 1/2), (3, ''S'', 3/5), (5, ''Y'', 1/5)]
                     [(3, ''S'', 7/10), (8, ''S'', 4/5), (3, ''S'', 1/10)] =
     ([(3, ''S'', 3/5, 7/10)], [(5, ''Y'', 1/5), (8, ''T'', 1/2)], [(3, ''S'', 1/10), (8, ''S'', 4/5)])
   \<and> find (\<lambda>b. site_key b = site_key (site_side1 (3, ''S'', 3/5, 7/10)))
        [(3, ''S'', 7/10), (8, ''S'', 4/5), (3, ''S'', 1/10)] = Some (site_side2 (3, ''S'', 3/5, 7/10))"
proof -
  have e: "find_common_sites [(8, ''T'', 1/2), (3, ''S'', 3/5), (5, ''Y'', 1/5)]
                     [(3, ''S'', 7/10), (8, ''S'', 4/5), (3, ''S'', 1/10)] =
     ([(3, ''S'', 3/5, 7/10)], [(5, ''Y'', 1/5), (8, ''T'', 1/2)], [(3, ''S'', 1/10), (8, ''S'', 4/5)])"
    by (simp add: find_common_sites_def)
  from find_common_sites_first_key_match
    [where ?sites1.0 = "[(8, ''T'', 1/2), (3, ''S'', 3/5), (5, ''Y'', 1/5)]"
       and ?sites2.0 = "[(3, ''S'', 7/10), (8, ''S'', 4/5), (3, ''S'', 1/10)]"]
  have "\<forall>m \<in> set [(3, ''S'', 3/5, 7/10 :: real)].
      find (\<lambda>b. site_key b = site_key (site_side1 m))
        [(3, ''S'', 7/10), (8, ''S'', 4/5), (3, ''S'', 1/10)] = Some (site_side2 m)"
    unfolding e prod.case by (elim conjE)
  then have "find (\<lambda>b. site_key b = site_key (site_side1 (3, ''S'', 3/5, 7/10)))
        [(3, ''S'', 7/10), (8, ''S'', 4/5), (3, ''S'', 1/10)] = Some (site_side2 (3, ''S'', 3/5, 7/10))"
    by simp
  with e show ?thesis by blast
qed

text \<open>
  The claim as the specification words it (each entry of list B consumed by at most one
  match, the first matching entry not yet consumed being picked) fails when list A
  repeats a position and residue: both entries of list A below are paired with the
  first entry of list B, and the second entry of list B, which no match consumed, stays
  unique to B.
\<close>

theorem find_common_sites_reuses_entry:
  "find_common_sites [(1, ''S'', 1/2), (1, ''S'', 3/5)] [(1, ''S'', 7/10), (1, ''S'', 4/5)] =
     ([(1, ''S'', 1/2, 7/10), (1, ''S'', 3/5, 7/10)], [], [(1, ''S'', 4/5)])"
  by (simp add: find_common_sites_def)

section \<open>Properties of the domain matcher\<close>

lemma map_of_dict_append:
  "map_of (dict_append k v d) k' =
     (if k' = k then Some ((case map_of d k of None \<Rightarrow> [] | Some vs \<Rightarrow> vs) @ [v]) else map_of d k')"
  by (induction d) auto

lemma dict_get_dict_append:
  "dict_get (dict_append k v d) k' [] = (if k' = k then dict_get d k [] @ [v] else dict_get d k' [])"
  by (simp add: dict_get_def map_of_dict_append)

lemma map_of_dict_append_None:
  "(map_of (dict_append k v d) k' = None) = (k' \<noteq> k \<and> map_of d k' = None)"
  by (simp add: map_of_dict_append)

lemma mset_concat_dict_append:
  "mset (concat (map snd (dict_append k v d))) = add_mset v (mset (concat (map snd d)))"
  by (induction d) auto

lemma group_fold_get:
  "dict_get (foldl (\<lambda>by_name2 d. dict_append (fst (snd d)) d by_name2) acc ds) name [] =
     dict_get acc name [] @ [d \<leftarrow> ds. fst (snd d) = name]"
  by (induction ds arbitrary: acc) (simp_all add: dict_get_dict_append)

lemma group_fold_None:
  "(map_of (foldl (\<lambda>by_name2 d. dict_append (fst (snd d)) d by_name2) acc ds) name = None) =
     (map_of acc name = None \<and> [d \<leftarrow> ds. fst (snd d) = name] = [])"
  by (induction ds arbitrary: acc) (auto simp: map_of_dict_append_None)

lemma group_fold_mset:
  "mset (concat (map snd (foldl (\<lambda>by_name2 d. dict_append (fst (snd d)) d by_name2) acc ds))) =
     mset (concat (map snd acc)) + mset ds"
  by (induction ds arbitrary: acc) (simp_all add: mset_concat_dict_append)

lemma group_by_name_bucket:
  "map_of (group_by_name domains2) name = Some bucket \<Longrightarrow>
   bucket = [d \<leftarrow> domains2. fst (snd d) = name]"
  using group_fold_get [of "[]" domains2 name]
  by (simp add: group_by_name_def dict_get_def)

lemma group_by_name_None:
  "map_of (group_by_name domains2) name = None \<Longrightarrow> [d \<leftarrow> domains2. fst (snd d) = name] = []"
  using group_fold_None [of "[]" domains2 name] by (simp add: group_by_name_def)

lemma group_by_name_mset: "mset (concat (map snd (group_by_name domains2))) = mset domains2"
  by (simp add: group_by_name_def group_fold_mset)

lemma min_by_in: "min_by key b xs \<in> set (b # xs)"
  by (induction xs arbitrary: b) (auto split: if_splits)

lemma min_by_le_best: "key (min_by key b xs) \<le> key b"
proof (induction xs arbitrary: b)
  case Nil
  then show ?case by simp
next
  case (Cons y ys)
  show ?case
  proof (cases "key y < key b")
    case True
    have "key (min_by key y ys) \<le> key y" by (rule Cons.IH)
    with True show ?thesis by simp
  next
    case False
    have "key (min_by key b ys) \<le> key b" by (rule Cons.IH)
    with False show ?thesis by simp
  qed
qed

lemma min_by_le_rest: "x \<in> set xs \<Longrightarrow> key (min_by key b xs) \<le> key x"
proof (induction xs arbitrary: b)
  case Nil
  then show ?case by simp
next
  case (Cons y ys)
  show ?case
  proof (cases "key y < key b")
    case True
    show ?thesis
    proof (cases "x = y")
      case True
      with \<open>key y < key b\<close> show ?thesis using min_by_le_best [of key y ys] by simp
    next
      case False
      with Cons.prems have "x \<in> set ys" by simp
      then have "key (min_by key y ys) \<le> key x" by (rule Cons.IH)
      with True show ?thesis by simp
    qed
  next
    case False
    show ?thesis
    proof (cases "x = y")
      case True
      with \<open>\<not> key y < key b\<close> show ?thesis using min_by_le_best [of key b ys] by simp
    next
      case nxy: False
      with Cons.prems have "x \<in> set ys" by simp
      then have "key (min_by key b ys) \<le> key x" by (rule Cons.IH)
      with False show ?thesis by simp
    qed
  qed
qed

lemma min_by_le: "x \<in> set (b # xs) \<Longrightarrow> key (min_by key b xs) \<le> key x"
  using min_by_le_best [of key b xs] min_by_le_rest [of x xs key b] by auto

lemma min_by_first:
  "\<exists>pre post. b # xs = pre @ min_by key b xs # post \<and> (\<forall>x \<in> set pre. key (min_by key b xs) < key x)"
proof (induction xs arbitrary: b)
  case Nil
  show ?case by (intro exI [of _ "[]"]) simp
next
  case (Cons y ys)
  show ?case
  proof (cases "key y < key b")
    case True
    from Cons.IH [of y] obtain pre post where
      p: "y # ys = pre @ min_by key y ys # post" "\<forall>x \<in> set pre. key (min_by key y ys) < key x"
      by blast
    have "key (min_by key y ys) \<le> key y" using min_by_le [of y y ys key] by simp
    with True have "key (min_by key y ys) < key b" by simp
    with p have "b # y # ys = (b # pre) @ min_by key y ys # post
        \<and> (\<forall>x \<in> set (b # pre). key (min_by key y ys) < key x)" by simp
    then show ?thesis using True by (simp only: min_by.simps if_True) blast
  next
    case False
    from Cons.IH [of b] obtain pre post where
      p: "b # ys = pre @ min_by key b ys # post" "\<forall>x \<in> set pre. key (min_by key b ys) < key x"
      by blast
    show ?thesis
    proof (cases pre)
      case Nil
      from p(1) have "b # ys = min_by key b ys # post" unfolding Nil by (simp only: append_Nil)
      then have m: "min_by key b ys = b" by (metis list.inject)
      have "b # y # ys = [] @ b # (y # ys) \<and> (\<forall>x \<in> set []. key b < key x)" by simp
      then show ?thesis using False unfolding min_by.simps m by (simp only: if_False m) blast
    next
      case (Cons b' pre')
      from p(1) have "b # ys = b' # (pre' @ min_by key b ys # post)"
        unfolding Cons by (simp only: append_Cons)
      then have b': "b' = b" and ys: "ys = pre' @ min_by key b ys # post"
        by (metis list.inject)+
      from p(2) have all: "\<forall>x \<in> set (b # pre'). key (min_by key b ys) < key x"
        unfolding Cons b' .
      then have "key (min_by key b ys) < key b" by simp
      with False have "key (min_by key b ys) < key y" by simp
      with all have "\<forall>x \<in> set (b # y # pre'). key (min_by key b ys) < key x" by simp
      moreover have "b # y # ys = (b # y # pre') @ min_by key b ys # post"
        by (subst ys) (simp only: append_Cons)
      ultimately show ?thesis using False by (simp only: min_by.simps if_False) blast
    qed
  qed
qed

lemma domains_step_candidates:
  "domains_step (group_by_name domains2) (c, u, used) (src1, name1, s1, e1) =
     (case [d \<leftarrow> domains2. fst (snd d) = name1 \<and> d \<notin> used] of
        [] \<Rightarrow> (c, u @ [(src1, name1, s1, e1)], used)
      | x # xs \<Rightarrow>
          (let d2 = min_by (\<lambda>x. \<bar>fst (snd (snd x)) - s1\<bar>) x xs
           in (c @ [(name1, (s1, e1), (fst (snd (snd d2)), snd (snd (snd d2))), src1, fst d2)],
               u, insert d2 used)))"
proof (cases "map_of (group_by_name domains2) name1")
  case None
  then have "[d \<leftarrow> domains2. fst (snd d) = name1] = []" by (rule group_by_name_None)
  then have "[d \<leftarrow> domains2. fst (snd d) = name1 \<and> d \<notin> used] = []"
    by (auto simp: filter_empty_conv)
  with None show ?thesis by simp
next
  case (Some bucket)
  then have "bucket = [d \<leftarrow> domains2. fst (snd d) = name1]" by (rule group_by_name_bucket)
  then have "[d2 \<leftarrow> bucket. d2 \<notin> used] = [d \<leftarrow> domains2. fst (snd d) = name1 \<and> d \<notin> used]"
    by (simp add: conj_commute)
  with Some show ?thesis by simp
qed

lemma match_side2_chosen:
  "fst (snd d2) = name1 \<Longrightarrow>
   match_side2 (name1, (s1, e1), (fst (snd (snd d2)), snd (snd (snd d2))), src1, fst d2) = d2"
  by (cases d2) auto

lemma domains_fold_used:
  "used = set (map match_side2 c) \<Longrightarrow>
   foldl (domains_step (group_by_name domains2)) (c, u, used) domains1 = (c', u', used') \<Longrightarrow>
   used' = set (map match_side2 c')"
proof (induction domains1 arbitrary: c u used)
  case Nil
  then show ?case by auto
next
  case (Cons d1 ds)
  obtain src1 name1 s1 e1 where d1: "d1 = (src1, name1, s1, e1)" by (cases d1) auto
  let ?cands = "[d \<leftarrow> domains2. fst (snd d) = name1 \<and> d \<notin> used]"
  show ?case
  proof (cases ?cands)
    case Nil
    then have "domains_step (group_by_name domains2) (c, u, used) d1 = (c, u @ [d1], used)"
      by (simp add: d1 domains_step_candidates del: domains_step.simps)
    with Cons.prems(2) have
      "foldl (domains_step (group_by_name domains2)) (c, u @ [d1], used) ds = (c', u', used')"
      by simp
    with Cons.prems(1) show ?thesis by (rule Cons.IH)
  next
    case (Cons x xs)
    define d2 where "d2 = min_by (\<lambda>x. \<bar>fst (snd (snd x)) - s1\<bar>) x xs"
    define r where "r = (name1, (s1, e1), (fst (snd (snd d2)), snd (snd (snd d2))), src1, fst d2)"
    have "d2 \<in> set ?cands" unfolding d2_def Cons by (rule min_by_in)
    then have "fst (snd d2) = name1" by simp
    then have s2: "match_side2 r = d2" unfolding r_def by (rule match_side2_chosen)
    have "domains_step (group_by_name domains2) (c, u, used) d1 = (c @ [r], u, insert d2 used)"
      by (simp add: d1 domains_step_candidates Cons d2_def r_def Let_def del: domains_step.simps)
    with Cons.prems(2) have
      f: "foldl (domains_step (group_by_name domains2)) (c @ [r], u, insert d2 used) ds = (c', u', used')"
      by simp
    have "insert d2 used = set (map match_side2 (c @ [r]))"
      using Cons.prems(1) s2 by simp
    then show ?thesis using f by (rule Cons.IH)
  qed
qed


lemma find_common_domains_state:
  "find_common_domains domains1 domains2 = (common, unique1, unique2) \<Longrightarrow>
   \<exists>used. foldl (domains_step (group_by_name domains2)) ([], [], {}) domains1 = (common, unique1, used)
     \<and> used = set (map match_side2 common)
     \<and> unique2 = [d \<leftarrow> concat (map snd (group_by_name domains2)). d \<notin> used]"
proof -
  assume a: "find_common_domains domains1 domains2 = (common, unique1, unique2)"
  obtain c u used where
    f: "foldl (domains_step (group_by_name domains2)) ([], [], {}) domains1 = (c, u, used)"
    by (cases "foldl (domains_step (group_by_name domains2)) ([], [], {}) domains1") auto
  have "{} = set (map match_side2 ([] :: domain_match list))" by simp
  then have "used = set (map match_side2 c)" using f by (rule domains_fold_used)
  moreover from a f have "c = common" "u = unique1"
    "unique2 = [d \<leftarrow> concat (map snd (group_by_name domains2)). d \<notin> used]"
    by (simp_all add: find_common_domains_def Let_def)
  ultimately show ?thesis using f by simp
qed

text \<open>
  The selection rule of the loop, for every input. On an empty list A nothing is matched
  and list B comes back grouped by label. Take the result \<open>(common, unique1, unique2)\<close>
  of \<open>find_common_domains\<close> on a prefix of list A, and the next annotation
  \<open>(src1, name1, s1, e1)\<close> of list A. Its candidates are the entries of list B with the
  label \<open>name1\<close> whose tuple is not in \<open>used_d2\<close>, that is, not the list-B side of a
  match record so far, in the order of list B (which is the order of the bucket).
  With no candidate the annotation becomes unique to A and nothing else changes.
  Otherwise it is paired with the candidate \<open>d2\<close> whose \<open>|start - s1|\<close> is least, the
  first such candidate on a tie (every earlier candidate is strictly farther, every
  later one at least as far); every entry equal to \<open>d2\<close> leaves the list unique to B.
  No condition on the intervals overlapping enters: only the label and the two starts
  are compared.
\<close>

lemma find_common_domains_nearest_start:
  assumes "find_common_domains before domains2 = (common, unique1, unique2)"
  shows "find_common_domains [] domains2 = ([], [], concat (map snd (group_by_name domains2)))
       \<and> (let cands = [d \<leftarrow> domains2. fst (snd d) = name1 \<and> d \<notin> set (map match_side2 common)]
          in (cands = [] \<longrightarrow>
                find_common_domains (before @ [(src1, name1, s1, e1)]) domains2 =
                  (common, unique1 @ [(src1, name1, s1, e1)], unique2))
           \<and> (cands \<noteq> [] \<longrightarrow>
                (\<exists>d2 pre post. cands = pre @ d2 # post
                   \<and> (\<forall>x \<in> set pre. \<bar>fst (snd (snd d2)) - s1\<bar> < \<bar>fst (snd (snd x)) - s1\<bar>)
                   \<and> (\<forall>x \<in> set post. \<bar>fst (snd (snd d2)) - s1\<bar> \<le> \<bar>fst (snd (snd x)) - s1\<bar>)
                   \<and> find_common_domains (before @ [(src1, name1, s1, e1)]) domains2 =
                       (common @ [(name1, (s1, e1), (fst (snd (snd d2)), snd (snd (snd d2))), src1, fst d2)],
                        unique1, [d \<leftarrow> unique2. d \<noteq> d2]))))"
proof -
  let ?bn = "group_by_name domains2"
  let ?d1 = "(src1, name1, s1, e1)"
  let ?key = "\<lambda>x :: domain. \<bar>fst (snd (snd x)) - s1\<bar>"
  from assms obtain used where
    f: "foldl (domains_step ?bn) ([], [], {}) before = (common, unique1, used)"
    and used: "used = set (map match_side2 common)"
    and u2: "unique2 = [d \<leftarrow> concat (map snd ?bn). d \<notin> used]"
    using find_common_domains_state by blast
  let ?cands = "[d \<leftarrow> domains2. fst (snd d) = name1 \<and> d \<notin> used]"
  have step: "foldl (domains_step ?bn) ([], [], {}) (before @ [?d1]) =
      domains_step ?bn (common, unique1, used) ?d1"
    by (simp add: f del: domains_step.simps)
  have empty: "find_common_domains (before @ [?d1]) domains2 = (common, unique1 @ [?d1], unique2)"
    if "?cands = []"
  proof -
    from that have "domains_step ?bn (common, unique1, used) ?d1 = (common, unique1 @ [?d1], used)"
      by (simp add: domains_step_candidates del: domains_step.simps)
    then show ?thesis
      unfolding find_common_domains_def Let_def step by (simp add: u2)
  qed
  have chosen: "\<exists>d2 pre post. ?cands = pre @ d2 # post
       \<and> (\<forall>x \<in> set pre. ?key d2 < ?key x) \<and> (\<forall>x \<in> set post. ?key d2 \<le> ?key x)
       \<and> find_common_domains (before @ [?d1]) domains2 =
           (common @ [(name1, (s1, e1), (fst (snd (snd d2)), snd (snd (snd d2))), src1, fst d2)],
            unique1, [d \<leftarrow> unique2. d \<noteq> d2])"
    if "?cands \<noteq> []"
  proof -
    from that obtain x xs where c: "?cands = x # xs" by (cases ?cands) auto
    define d2 where "d2 = min_by ?key x xs"
    obtain pre post where p: "x # xs = pre @ d2 # post" "\<forall>y \<in> set pre. ?key d2 < ?key y"
      unfolding d2_def using min_by_first [of x xs ?key] by blast
    have "\<forall>y \<in> set (x # xs). ?key d2 \<le> ?key y"
      unfolding d2_def using min_by_le [of _ x xs ?key] by blast
    with p(1) have le: "\<forall>y \<in> set post. ?key d2 \<le> ?key y" by simp
    have "domains_step ?bn (common, unique1, used) ?d1 =
        (common @ [(name1, (s1, e1), (fst (snd (snd d2)), snd (snd (snd d2))), src1, fst d2)],
         unique1, insert d2 used)"
      by (simp add: domains_step_candidates c d2_def Let_def del: domains_step.simps)
    then have "find_common_domains (before @ [?d1]) domains2 =
        (common @ [(name1, (s1, e1), (fst (snd (snd d2)), snd (snd (snd d2))), src1, fst d2)],
         unique1, [d \<leftarrow> concat (map snd ?bn). d \<notin> insert d2 used])"
      unfolding find_common_domains_def Let_def step by simp
    moreover have "[d \<leftarrow> concat (map snd ?bn). d \<notin> insert d2 used] = [d \<leftarrow> unique2. d \<noteq> d2]"
      unfolding u2 by (simp add: conj_commute)
    ultimately have fin: "find_common_domains (before @ [?d1]) domains2 =
        (common @ [(name1, (s1, e1), (fst (snd (snd d2)), snd (snd (snd d2))), src1, fst d2)],
         unique1, [d \<leftarrow> unique2. d \<noteq> d2])"
      by (rule trans [OF _ arg_cong [where f = "\<lambda>z. (_, _, z)"]])
    from p(1) c have "?cands = pre @ d2 # post" by simp
    with p(2) le fin show ?thesis by (intro exI [of _ d2] exI [of _ pre] exI [of _ post]) (intro conjI)
  qed
  show ?thesis
    unfolding Let_def used [symmetric]
  proof (intro conjI impI)
    show "find_common_domains [] domains2 = ([], [], concat (map snd (group_by_name domains2)))"
      by (simp add: find_common_domains_def)
  next
    assume "?cands = []"
    then show "find_common_domains (before @ [?d1]) domains2 = (common, unique1 @ [?d1], unique2)"
      by (rule empty)
  next
    assume "?cands \<noteq> []"
    then show "\<exists>d2 pre post. ?cands = pre @ d2 # post
       \<and> (\<forall>x \<in> set pre. ?key d2 < ?key x) \<and> (\<forall>x \<in> set post. ?key d2 \<le> ?key x)
       \<and> find_common_domains (before @ [?d1]) domains2 =
           (common @ [(name1, (s1, e1), (fst (snd (snd d2)), snd (snd (snd d2))), src1, fst d2)],
            unique1, [d \<leftarrow> unique2. d \<noteq> d2])"
      by (rule chosen)
  qed
qed

lemma find_common_domains_nearest_start_example:
  "find_common_domains []
     [(''u'', ''K'', 500, 600), (''u'', ''SH2'', 100, 130), (''u'', ''K'', 8, 22), (''u'', ''K'', 12, 22)] =
     ([], [], [(''u'', ''K'', 500, 600), (''u'', ''K'', 8, 22), (''u'', ''K'', 12, 22), (''u'', ''SH2'', 100, 130)])
   \<and> (\<exists>d2 pre post.
         [(''u'', ''K'', 500, 600), (''u'', ''K'', 8, 22), (''u'', ''K'', 12, 22)] = pre @ d2 # post
       \<and> (\<forall>x \<in> set pre. \<bar>fst (snd (snd d2)) - 10\<bar> < \<bar>fst (snd (snd x)) - 10\<bar>)
       \<and> (\<forall>x \<in> set post. \<bar>fst (snd (snd d2)) - 10\<bar> \<le> \<bar>fst (snd (snd x)) - 10\<bar>)
       \<and> find_common_domains ([] @ [(''t'', ''K'', 10, 20)])
            [(''u'', ''K'', 500, 600), (''u'', ''SH2'', 100, 130), (''u'', ''K'', 8, 22), (''u'', ''K'', 12, 22)] =
            ([(''K'', (10, 20), (fst (snd (snd d2)), snd (snd (snd d2))), ''t'', fst d2)], [],
             [d \<leftarrow> [(''u'', ''K'', 500, 600), (''u'', ''K'', 8, 22), (''u'', ''K'', 12, 22),
                    (''u'', ''SH2'', 100, 130)]. d \<noteq> d2]))
   \<and> find_common_domains [(''t'', ''K'', 10, 20)]
        [(''u'', ''K'', 500, 600), (''u'', ''SH2'', 100, 130), (''u'', ''K'', 8, 22), (''u'', ''K'', 12, 22)] =
        ([(''K'', (10, 20), (8, 22), ''t'', ''u'')], [],
         [(''u'', ''K'', 500, 600), (''u'', ''K'', 12, 22), (''u'', ''SH2'', 100, 130)])
   \<and> find_common_domains [(''t'', ''K'', 10, 20)] [(''u'', ''K'', 500, 600)] =
        ([(''K'', (10, 20), (500, 600), ''t'', ''u'')], [], [])"
proof -
  let ?B = "[(''u'', ''K'', 500, 600), (''u'', ''SH2'', 100, 130), (''u'', ''K'', 8, 22),
             (''u'', ''K'', 12, 22)] :: domain list"
  have e0: "find_common_domains [] ?B =
     ([], [], [(''u'', ''K'', 500, 600), (''u'', ''K'', 8, 22), (''u'', ''K'', 12, 22), (''u'', ''SH2'', 100, 130)])"
    by (simp add: find_common_domains_def group_by_name_def)
  have e1: "find_common_domains [(''t'', ''K'', 10, 20)] ?B =
        ([(''K'', (10, 20), (8, 22), ''t'', ''u'')], [],
         [(''u'', ''K'', 500, 600), (''u'', ''K'', 12, 22), (''u'', ''SH2'', 100, 130)])"
    by (simp add: find_common_domains_def group_by_name_def)
  have e2: "find_common_domains [(''t'', ''K'', 10, 20)] [(''u'', ''K'', 500, 600)] =
        ([(''K'', (10, 20), (500, 600), ''t'', ''u'')], [], [])"
    by (simp add: find_common_domains_def group_by_name_def)
  have c: "[d \<leftarrow> ?B. fst (snd d) = ''K'' \<and> d \<notin> set (map match_side2 [])] =
      [(''u'', ''K'', 500, 600), (''u'', ''K'', 8, 22), (''u'', ''K'', 12, 22)]"
    by simp
  note t = find_common_domains_nearest_start [where ?name1.0 = "''K''" and ?s1.0 = 10
      and ?src1.0 = "''t''" and ?e1.0 = 20, OF e0, THEN conjunct2]
  from t have ex: "\<exists>d2 pre post.
         [(''u'', ''K'', 500, 600), (''u'', ''K'', 8, 22), (''u'', ''K'', 12, 22)] = pre @ d2 # post
       \<and> (\<forall>x \<in> set pre. \<bar>fst (snd (snd d2)) - 10\<bar> < \<bar>fst (snd (snd x)) - 10\<bar>)
       \<and> (\<forall>x \<in> set post. \<bar>fst (snd (snd d2)) - 10\<bar> \<le> \<bar>fst (snd (snd x)) - 10\<bar>)
       \<and> find_common_domains ([] @ [(''t'', ''K'', 10, 20)]) ?B =
            ([(''K'', (10, 20), (fst (snd (snd d2)), snd (snd (snd d2))), ''t'', fst d2)], [],
             [d \<leftarrow> [(''u'', ''K'', 500, 600), (''u'', ''K'', 8, 22), (''u'', ''K'', 12, 22),
                    (''u'', ''SH2'', 100, 130)]. d \<noteq> d2])"
    unfolding Let_def c by (simp only: list.simps simp_thms append_Nil)
  from e0 ex e1 e2 show ?thesis by (intro conjI)
qed

text \<open>
  Claim C4 says that each annotation of list A is paired with the not-yet-consumed
  same-label entry of list B whose start is nearest. \<open>used_d2\<close> is a set of tuples, so
  when list B repeats a tuple, pairing one copy marks the other copy consumed as well.
  Below, list A and list B each hold the same annotation twice: the first annotation of
  list A is paired, the second finds no candidate and becomes unique to A although the
  second entry of list B was never paired, and that entry is reported neither as common
  nor as unique to B.
\<close>

theorem find_common_domains_equal_tuples:
  "find_common_domains [(''t'', ''K'', 10, 20), (''t'', ''K'', 10, 20)]
                       [(''u'', ''K'', 12, 22), (''u'', ''K'', 12, 22)] =
     ([(''K'', (10, 20), (12, 22), ''t'', ''u'')], [(''t'', ''K'', 10, 20)], [])"
  by (simp add: find_common_domains_def group_by_name_def)

section \<open>Conservation of the annotations\<close>

lemma distinct_subset_mset: "distinct xs \<Longrightarrow> set xs \<subseteq> set ys \<Longrightarrow> mset xs \<subseteq># mset ys"
proof (rule mset_subset_eqI)
  fix a
  assume d: "distinct xs" and s: "set xs \<subseteq> set ys"
  show "count (mset xs) a \<le> count (mset ys) a"
  proof (cases "a \<in> set xs")
    case True
    with d have "count (mset xs) a = 1" by (simp add: distinct_count_atmost_1)
    moreover from True s have "a \<in> set ys" by blast
    then have "1 \<le> count (mset ys) a" by (simp add: Suc_le_eq)
    ultimately show ?thesis by simp
  next
    case False
    then have "count (mset xs) a = 0" by (simp add: count_eq_zero_iff)
    then show ?thesis by linarith
  qed
qed

lemma mset_filter_split: "mset xs = mset [x \<leftarrow> xs. \<not> P x] + mset [x \<leftarrow> xs. P x]"
  by (induction xs) simp_all

text \<open>Domains: the first sides always recover \<open>domains1\<close>.\<close>

lemma domains_fold_side1:
  "foldl (domains_step (group_by_name domains2)) (c, u, used) domains1 = (c', u', used') \<Longrightarrow>
   mset u' + mset (map match_side1 c') = mset u + mset (map match_side1 c) + mset domains1"
proof (induction domains1 arbitrary: c u used)
  case Nil
  then show ?case by auto
next
  case (Cons d1 ds)
  obtain src1 name1 s1 e1 where d1: "d1 = (src1, name1, s1, e1)" by (cases d1) auto
  let ?cands = "[d \<leftarrow> domains2. fst (snd d) = name1 \<and> d \<notin> used]"
  show ?case
  proof (cases ?cands)
    case Nil
    then have "domains_step (group_by_name domains2) (c, u, used) d1 = (c, u @ [d1], used)"
      by (simp add: d1 domains_step_candidates del: domains_step.simps)
    with Cons.prems have
      "foldl (domains_step (group_by_name domains2)) (c, u @ [d1], used) ds = (c', u', used')"
      by simp
    then have "mset u' + mset (map match_side1 c') =
        mset (u @ [d1]) + mset (map match_side1 c) + mset ds"
      by (rule Cons.IH)
    then show ?thesis by simp
  next
    case (Cons x xs)
    define d2 where "d2 = min_by (\<lambda>x. \<bar>fst (snd (snd x)) - s1\<bar>) x xs"
    define r where "r = (name1, (s1, e1), (fst (snd (snd d2)), snd (snd (snd d2))), src1, fst d2)"
    have s1: "match_side1 r = d1" unfolding r_def d1 by (simp only: match_side1.simps)
    have "domains_step (group_by_name domains2) (c, u, used) d1 = (c @ [r], u, insert d2 used)"
      by (simp add: d1 domains_step_candidates Cons d2_def r_def Let_def del: domains_step.simps)
    with Cons.prems have
      "foldl (domains_step (group_by_name domains2)) (c @ [r], u, insert d2 used) ds = (c', u', used')"
      by simp
    then have "mset u' + mset (map match_side1 c') =
        mset u + mset (map match_side1 (c @ [r])) + mset ds"
      by (rule Cons.IH)
    then show ?thesis by (simp add: s1)
  qed
qed

lemma domains_fold_side2:
  "used = set (map match_side2 c) \<Longrightarrow> distinct (map match_side2 c) \<Longrightarrow>
   set (map match_side2 c) \<subseteq> set domains2 \<Longrightarrow>
   foldl (domains_step (group_by_name domains2)) (c, u, used) domains1 = (c', u', used') \<Longrightarrow>
   distinct (map match_side2 c') \<and> set (map match_side2 c') \<subseteq> set domains2"
proof (induction domains1 arbitrary: c u used)
  case Nil
  then show ?case by auto
next
  case (Cons d1 ds)
  obtain src1 name1 s1 e1 where d1: "d1 = (src1, name1, s1, e1)" by (cases d1) auto
  let ?cands = "[d \<leftarrow> domains2. fst (snd d) = name1 \<and> d \<notin> used]"
  show ?case
  proof (cases ?cands)
    case Nil
    then have "domains_step (group_by_name domains2) (c, u, used) d1 = (c, u @ [d1], used)"
      by (simp add: d1 domains_step_candidates del: domains_step.simps)
    with Cons.prems(4) have
      "foldl (domains_step (group_by_name domains2)) (c, u @ [d1], used) ds = (c', u', used')"
      by simp
    with Cons.prems(1-3) show ?thesis by (rule Cons.IH)
  next
    case (Cons x xs)
    define d2 where "d2 = min_by (\<lambda>x. \<bar>fst (snd (snd x)) - s1\<bar>) x xs"
    define r where "r = (name1, (s1, e1), (fst (snd (snd d2)), snd (snd (snd d2))), src1, fst d2)"
    have "d2 \<in> set ?cands" unfolding d2_def Cons by (rule min_by_in)
    then have in2: "d2 \<in> set domains2" and lab: "fst (snd d2) = name1" and fresh: "d2 \<notin> used"
      by simp_all
    from lab have s2: "match_side2 r = d2" unfolding r_def by (rule match_side2_chosen)
    have "domains_step (group_by_name domains2) (c, u, used) d1 = (c @ [r], u, insert d2 used)"
      by (simp add: d1 domains_step_candidates Cons d2_def r_def Let_def del: domains_step.simps)
    with Cons.prems(4) have
      f: "foldl (domains_step (group_by_name domains2)) (c @ [r], u, insert d2 used) ds = (c', u', used')"
      by simp
    have a: "insert d2 used = set (map match_side2 (c @ [r]))"
      using Cons.prems(1) s2 by simp
    have b: "distinct (map match_side2 (c @ [r]))"
      using Cons.prems(1,2) s2 fresh by simp
    have c: "set (map match_side2 (c @ [r])) \<subseteq> set domains2"
      using Cons.prems(3) s2 in2 by simp
    from a b c f show ?thesis by (rule Cons.IH)
  qed
qed

lemma find_common_domains_conserves:
  assumes "distinct domains2"
  shows "(case find_common_domains domains1 domains2 of
      (common, unique1, unique2) \<Rightarrow>
        mset domains1 = mset unique1 + mset (map match_side1 common)
        \<and> mset domains2 = mset unique2 + mset (map match_side2 common)
        \<and> length common * 2 + length unique1 + length unique2 = length domains1 + length domains2)"
proof -
  let ?bn = "group_by_name domains2"
  obtain c u used where f: "foldl (domains_step ?bn) ([], [], {}) domains1 = (c, u, used)"
    by (cases "foldl (domains_step ?bn) ([], [], {}) domains1") auto
  define u2 where "u2 = [d \<leftarrow> concat (map snd ?bn). d \<notin> used]"
  have r: "find_common_domains domains1 domains2 = (c, u, u2)"
    by (simp add: find_common_domains_def f u2_def)
  have e1: "{} = set (map match_side2 ([] :: domain_match list))" by simp
  have e2: "distinct (map match_side2 ([] :: domain_match list))" by simp
  have e3: "set (map match_side2 ([] :: domain_match list)) \<subseteq> set domains2" by simp
  from e1 f have used: "used = set (map match_side2 c)" by (rule domains_fold_used)
  from e1 e2 e3 f have ds: "distinct (map match_side2 c) \<and> set (map match_side2 c) \<subseteq> set domains2"
    by (rule domains_fold_side2)
  then have dist: "distinct (map match_side2 c)" and sub: "set (map match_side2 c) \<subseteq> set domains2"
    by simp_all
  from f have "mset u + mset (map match_side1 c) =
      mset [] + mset (map match_side1 []) + mset domains1"
    by (rule domains_fold_side1)
  then have A: "mset domains1 = mset u + mset (map match_side1 c)" by simp
  have "mset u2 = filter_mset (\<lambda>d. d \<notin> used) (mset (concat (map snd ?bn)))"
    unfolding u2_def by (simp only: mset_filter)
  then have m2: "mset u2 = mset [d \<leftarrow> domains2. d \<notin> used]"
    unfolding group_by_name_mset by (simp only: mset_filter)
  have d2: "distinct [d \<leftarrow> domains2. d \<in> used]" using assms by (rule distinct_filter)
  have s2: "set [d \<leftarrow> domains2. d \<in> used] = set (map match_side2 c)"
    unfolding used [symmetric] using sub unfolding used [symmetric] by auto
  from d2 dist s2 have "mset [d \<leftarrow> domains2. d \<in> used] = mset (map match_side2 c)"
    by (simp only: set_eq_iff_mset_eq_distinct)
  with m2 have B: "mset domains2 = mset u2 + mset (map match_side2 c)"
    using mset_filter_split [of domains2 "\<lambda>d. d \<in> used"] by (simp only:)
  from A have "size (mset domains1) = size (mset u + mset (map match_side1 c))" by (rule arg_cong)
  then have la: "length domains1 = length u + length c" by simp
  from B have "size (mset domains2) = size (mset u2 + mset (map match_side2 c))"
    by (rule arg_cong)
  then have lb: "length domains2 = length u2 + length c" by simp
  from la lb have L: "length c * 2 + length u + length u2 = length domains1 + length domains2"
    by simp
  from A B L show ?thesis unfolding r prod.case by (intro conjI)
qed

lemma find_Some_in_set: "find P xs = Some x \<Longrightarrow> x \<in> set xs"
  by (induction xs) (auto split: if_splits)

lemma distinct_of_map: "distinct (map f ys) \<Longrightarrow> distinct ys"
  by (simp add: distinct_map)

lemma distinct_map_sort_key:
  "distinct (map k xs) \<Longrightarrow> distinct (map k (sort_key f xs))"
proof -
  assume "distinct (map k xs)"
  moreover have "mset (map k (sort_key f xs)) = mset (map k xs)" by simp
  ultimately show ?thesis by (metis mset_eq_imp_distinct_iff)
qed

lemma find_common_sites_conserves:
  assumes "distinct (map site_key sites1)"
  shows "(case find_common_sites sites1 sites2 of
      (common, unique1, unique2) \<Rightarrow>
        mset sites1 = mset unique1 + mset (map site_side1 common)
        \<and> mset sites2 = mset unique2 + mset (map site_side2 common)
        \<and> length common * 2 + length unique1 + length unique2 = length sites1 + length sites2)"
proof -
  obtain c u1 u2 where r: "find_common_sites sites1 sites2 = (c, u1, u2)"
    by (cases "find_common_sites sites1 sites2") auto
  let ?in = "[a \<leftarrow> sites1. site_key a \<in> site_key ` set sites2]"
  note p1 = find_common_sites_parts(1) [OF r] and p2 = find_common_sites_parts(2) [OF r]
    and p3 = find_common_sites_parts(3) [OF r] and p4 = find_common_sites_parts(4) [OF r]
  have "mset (map site_side1 c) = mset ?in" unfolding p1 by (rule mset_sort)
  moreover have "mset u1 = mset [a \<leftarrow> sites1. site_key a \<notin> site_key ` set sites2]"
    unfolding p3 by (rule mset_sort)
  ultimately have A: "mset sites1 = mset u1 + mset (map site_side1 c)"
    using mset_filter_split [of sites1 "\<lambda>a. site_key a \<in> site_key ` set sites2"] by (simp only:)
  have "distinct (map site_key ?in)" using assms by (rule distinct_map_filter)
  then have "distinct (map site_key (sort_key fst ?in))" by (rule distinct_map_sort_key)
  then have "distinct (map site_key (map site_side1 c))" unfolding p1 .
  moreover have "map site_key (map site_side2 c) = map site_key (map site_side1 c)"
    by (simp add: site_key_sides)
  ultimately have "distinct (map site_key (map site_side2 c))" by (simp only:)
  then have d: "distinct (map site_side2 c)" by (rule distinct_of_map)
  have s: "set (map site_side2 c) \<subseteq> set sites2"
  proof
    fix b assume "b \<in> set (map site_side2 c)"
    then obtain m where m: "m \<in> set c" "b = site_side2 m" by auto
    with p2 have "find (\<lambda>b. site_key b = site_key (site_side1 m)) sites2 = Some b" by simp
    then show "b \<in> set sites2" by (rule find_Some_in_set)
  qed
  from d s have "mset (map site_side2 c) \<subseteq># mset sites2" by (rule distinct_subset_mset)
  then have B: "mset sites2 = mset u2 + mset (map site_side2 c)"
    unfolding p4 by (simp only: subset_mset.diff_add)
  from A have "size (mset sites1) = size (mset u1 + mset (map site_side1 c))" by (rule arg_cong)
  then have la: "length sites1 = length u1 + length c" by simp
  from B have "size (mset sites2) = size (mset u2 + mset (map site_side2 c))" by (rule arg_cong)
  then have lb: "length sites2 = length u2 + length c" by simp
  from la lb have L: "length c * 2 + length u1 + length u2 = length sites1 + length sites2"
    by simp
  from A B L show ?thesis unfolding r prod.case by (intro conjI)
qed

lemma find_common_sites_msa_conserves:
  assumes "distinct (map msa_key mapped1)" and "distinct (map msa_key mapped2)"
  shows "(case find_common_sites_msa mapped1 mapped2 of
      (common, unique1, unique2) \<Rightarrow>
        mset mapped1 = mset unique1 + mset (map msa_side1 common)
        \<and> mset mapped2 = mset unique2 + mset (map msa_side2 common)
        \<and> length common * 2 + length unique1 + length unique2 = length mapped1 + length mapped2)"
proof -
  obtain c u1 u2 where r: "find_common_sites_msa mapped1 mapped2 = (c, u1, u2)"
    by (cases "find_common_sites_msa mapped1 mapped2") auto
  let ?in1 = "[a \<leftarrow> mapped1. msa_key a \<in> msa_key ` set mapped2]"
  let ?in2 = "[b \<leftarrow> mapped2. msa_key b \<in> msa_key ` set mapped1]"
  note p1 = find_common_sites_msa_parts(1) [OF r] and p3 = find_common_sites_msa_parts(3) [OF r]
    and p4 = find_common_sites_msa_parts(4) [OF r]
  have p2: "\<forall>m \<in> set c. msa_side2 m \<in> set mapped2 \<and> msa_key (msa_side2 m) = msa_key (msa_side1 m)"
    using find_common_sites_msa_parts(2) [OF r] by (simp add: msa_key_sides)
  have "mset (map msa_side1 c) = mset ?in1" unfolding p1 by (rule mset_sort)
  moreover have "mset u1 = mset [a \<leftarrow> mapped1. msa_key a \<notin> msa_key ` set mapped2]"
    unfolding p3 by (rule mset_sort)
  ultimately have A: "mset mapped1 = mset u1 + mset (map msa_side1 c)"
    using mset_filter_split [of mapped1 "\<lambda>a. msa_key a \<in> msa_key ` set mapped2"] by (simp only:)
  have s1: "set (map msa_side1 c) = set ?in1" unfolding p1 by (rule set_sort)
  have "distinct (map msa_key ?in1)" using assms(1) by (rule distinct_map_filter)
  then have "distinct (map msa_key (sort_key fst ?in1))" by (rule distinct_map_sort_key)
  then have "distinct (map msa_key (map msa_side1 c))" unfolding p1 .
  moreover have "map msa_key (map msa_side2 c) = map msa_key (map msa_side1 c)"
    using p2 by simp
  ultimately have "distinct (map msa_key (map msa_side2 c))" by (simp only:)
  then have d: "distinct (map msa_side2 c)" by (rule distinct_of_map)
  have inj: "inj_on msa_key (set mapped2)" using assms(2) by (simp add: distinct_map)
  have s: "set (map msa_side2 c) = set ?in2"
  proof (intro set_eqI iffI)
    fix b assume "b \<in> set (map msa_side2 c)"
    then obtain m where m: "m \<in> set c" "b = msa_side2 m" by auto
    with p2 have b2: "b \<in> set mapped2" and k: "msa_key b = msa_key (msa_side1 m)" by simp_all
    from m(1) have "msa_side1 m \<in> set (map msa_side1 c)" by simp
    with s1 have "msa_side1 m \<in> set mapped1" by simp
    with k have "msa_key b \<in> msa_key ` set mapped1" by simp
    with b2 show "b \<in> set ?in2" by simp
  next
    fix b assume "b \<in> set ?in2"
    then have b2: "b \<in> set mapped2" and "msa_key b \<in> msa_key ` set mapped1" by simp_all
    then obtain a where a: "a \<in> set mapped1" "msa_key a = msa_key b" by auto
    with b2 have "a \<in> set ?in1" by (simp add: rev_image_eqI)
    with s1 have "a \<in> set (map msa_side1 c)" by simp
    then obtain m where m: "m \<in> set c" "a = msa_side1 m" by auto
    with p2 have "msa_side2 m \<in> set mapped2" "msa_key (msa_side2 m) = msa_key a" by simp_all
    with a(2) b2 inj have "msa_side2 m = b" by (simp add: inj_on_def)
    with m(1) show "b \<in> set (map msa_side2 c)" by auto
  qed
  have "distinct mapped2" using assms(2) by (rule distinct_of_map)
  then have "distinct ?in2" by (rule distinct_filter)
  with d s have "mset (map msa_side2 c) = mset ?in2"
    by (simp only: set_eq_iff_mset_eq_distinct)
  moreover have "mset u2 = mset [b \<leftarrow> mapped2. msa_key b \<notin> msa_key ` set mapped1]"
    unfolding p4 by (rule mset_sort)
  ultimately have B: "mset mapped2 = mset u2 + mset (map msa_side2 c)"
    using mset_filter_split [of mapped2 "\<lambda>b. msa_key b \<in> msa_key ` set mapped1"] by (simp only:)
  from A have "size (mset mapped1) = size (mset u1 + mset (map msa_side1 c))" by (rule arg_cong)
  then have la: "length mapped1 = length u1 + length c" by simp
  from B have "size (mset mapped2) = size (mset u2 + mset (map msa_side2 c))" by (rule arg_cong)
  then have lb: "length mapped2 = length u2 + length c" by simp
  from la lb have L: "length c * 2 + length u1 + length u2 = length mapped1 + length mapped2"
    by simp
  from A B L show ?thesis unfolding r prod.case by (intro conjI)
qed

text \<open>
  Claim C1, as the code has it. Each matcher returns \<open>(common, unique1, unique2)\<close> with
  \<open>len(common)*2 + len(unique1) + len(unique2) = len(list_A) + len(list_B)\<close>, the first
  sides of the match records together with \<open>unique1\<close> being list A and the second sides
  together with \<open>unique2\<close> being list B, each annotation exactly once (as multisets),
  provided the input has no repeats where the matcher works by value:
  \<^item> \<open>find_common_domains\<close>: list B has no repeated tuple;
  \<^item> \<open>find_common_sites\<close>: list A has no repeated (position, residue);
  \<^item> \<open>find_common_sites_msa\<close>: neither list has a repeated (alignment column, residue).
\<close>

theorem matchers_conserve_annotations:
  "(distinct domains2 \<longrightarrow>
      (case find_common_domains domains1 domains2 of
         (common, unique1, unique2) \<Rightarrow>
           mset domains1 = mset unique1 + mset (map match_side1 common)
           \<and> mset domains2 = mset unique2 + mset (map match_side2 common)
           \<and> length common * 2 + length unique1 + length unique2 =
               length domains1 + length domains2))
   \<and> (distinct (map site_key sites1) \<longrightarrow>
      (case find_common_sites sites1 sites2 of
         (common, unique1, unique2) \<Rightarrow>
           mset sites1 = mset unique1 + mset (map site_side1 common)
           \<and> mset sites2 = mset unique2 + mset (map site_side2 common)
           \<and> length common * 2 + length unique1 + length unique2 =
               length sites1 + length sites2))
   \<and> (distinct (map msa_key mapped1) \<and> distinct (map msa_key mapped2) \<longrightarrow>
      (case find_common_sites_msa mapped1 mapped2 of
         (common, unique1, unique2) \<Rightarrow>
           mset mapped1 = mset unique1 + mset (map msa_side1 common)
           \<and> mset mapped2 = mset unique2 + mset (map msa_side2 common)
           \<and> length common * 2 + length unique1 + length unique2 =
               length mapped1 + length mapped2))"
  using find_common_domains_conserves [of domains2 domains1]
    find_common_sites_conserves [of sites1 sites2]
    find_common_sites_msa_conserves [of mapped1 mapped2]
  by (intro conjI impI) (simp_all only:)

theorem matchers_conserve_witness:
  "distinct [(''tool2'', ''Kinase'', 12 :: int, 55 :: int), (''tool2'', ''SH2'', 100, 130)]
   \<and> (case find_common_domains [(''tool1'', ''Kinase'', 10, 50)]
               [(''tool2'', ''Kinase'', 12, 55), (''tool2'', ''SH2'', 100, 130)] of
         (common, unique1, unique2) \<Rightarrow>
           length common * 2 + length unique1 + length unique2 = 1 + 2
           \<and> mset [(''tool2'', ''Kinase'', 12, 55), (''tool2'', ''SH2'', 100, 130)] =
               mset unique2 + mset (map match_side2 common))
   \<and> distinct (map site_key [(5, ''S'', 3/10), (6, ''T'', 9/10)])
   \<and> (case find_common_sites [(5, ''S'', 3/10), (6, ''T'', 9/10)]
               [(6, ''T'', 1/2), (6, ''T'', 1/2), (7, ''Y'', 4/5)] of
         (common, unique1, unique2) \<Rightarrow>
           length common * 2 + length unique1 + length unique2 = 2 + 3)
   \<and> distinct (map msa_key [(4, 3, ''T'', 9/10), (2, 2, ''S'', 1/2)])
   \<and> distinct (map msa_key [(4, 4, ''T'', 4/5), (5, 5, ''Y'', 1/2)])
   \<and> (case find_common_sites_msa [(4, 3, ''T'', 9/10), (2, 2, ''S'', 1/2)]
               [(4, 4, ''T'', 4/5), (5, 5, ''Y'', 1/2)] of
         (common, unique1, unique2) \<Rightarrow>
           length common * 2 + length unique1 + length unique2 = 2 + 2)"
proof -
  let ?A = "[(''tool1'', ''Kinase'', 10, 50)] :: domain list"
  let ?B = "[(''tool2'', ''Kinase'', 12, 55), (''tool2'', ''SH2'', 100, 130)] :: domain list"
  let ?S1 = "[(5, ''S'', 3/10), (6, ''T'', 9/10)] :: site list"
  let ?S2 = "[(6, ''T'', 1/2), (6, ''T'', 1/2), (7, ''Y'', 4/5)] :: site list"
  let ?M1 = "[(4, 3, ''T'', 9/10), (2, 2, ''S'', 1/2)] :: mapped_site list"
  let ?M2 = "[(4, 4, ''T'', 4/5), (5, 5, ''Y'', 1/2)] :: mapped_site list"
  note t = matchers_conserve_annotations [where ?domains1.0 = ?A and ?domains2.0 = ?B
      and ?sites1.0 = ?S1 and ?sites2.0 = ?S2 and ?mapped1.0 = ?M1 and ?mapped2.0 = ?M2]
  have h1: "distinct ?B" by simp
  have h2: "distinct (map site_key ?S1)" by (simp add: site_key_def)
  have h3: "distinct (map msa_key ?M1)" "distinct (map msa_key ?M2)" by (simp_all add: msa_key_def)
  from t [THEN conjunct1, THEN mp, OF h1] have "case find_common_domains ?A ?B of
         (common, unique1, unique2) \<Rightarrow>
           mset ?A = mset unique1 + mset (map match_side1 common)
           \<and> mset ?B = mset unique2 + mset (map match_side2 common)
           \<and> length common * 2 + length unique1 + length unique2 = length ?A + length ?B" .
  then have c1: "case find_common_domains ?A ?B of
         (common, unique1, unique2) \<Rightarrow>
           length common * 2 + length unique1 + length unique2 = 1 + 2
           \<and> mset ?B = mset unique2 + mset (map match_side2 common)"
    by (cases "find_common_domains ?A ?B") simp
  from t [THEN conjunct2, THEN conjunct1, THEN mp, OF h2] have "case find_common_sites ?S1 ?S2 of
         (common, unique1, unique2) \<Rightarrow>
           mset ?S1 = mset unique1 + mset (map site_side1 common)
           \<and> mset ?S2 = mset unique2 + mset (map site_side2 common)
           \<and> length common * 2 + length unique1 + length unique2 = length ?S1 + length ?S2" .
  then have c2: "case find_common_sites ?S1 ?S2 of
         (common, unique1, unique2) \<Rightarrow>
           length common * 2 + length unique1 + length unique2 = 2 + 3"
    by (cases "find_common_sites ?S1 ?S2") simp
  from t [THEN conjunct2, THEN conjunct2, THEN mp, OF conjI [OF h3]] have "case find_common_sites_msa ?M1 ?M2 of
         (common, unique1, unique2) \<Rightarrow>
           mset ?M1 = mset unique1 + mset (map msa_side1 common)
           \<and> mset ?M2 = mset unique2 + mset (map msa_side2 common)
           \<and> length common * 2 + length unique1 + length unique2 = length ?M1 + length ?M2" .
  then have c3: "case find_common_sites_msa ?M1 ?M2 of
         (common, unique1, unique2) \<Rightarrow>
           length common * 2 + length unique1 + length unique2 = 2 + 2"
    by (cases "find_common_sites_msa ?M1 ?M2") simp
  from h1 c1 h2 c2 h3 c3 show ?thesis by (intro conjI)
qed

text \<open>
  Without these provisos the equation of the claim fails for each matcher: a repeated
  tuple of list B is consumed as one entry by the domain matcher, and a repeated key of
  list A is matched twice against the same entry of list B by both site matchers.
\<close>

theorem conservation_fails_on_repeats:
  "(case find_common_domains [(''t'', ''K'', 10, 20)] [(''u'', ''K'', 12, 22), (''u'', ''K'', 12, 22)] of
      (common, unique1, unique2) \<Rightarrow>
        length common * 2 + length unique1 + length unique2 \<noteq>
          length [(''t'', ''K'', 10 :: int, 20 :: int)]
          + length [(''u'', ''K'', 12 :: int, 22 :: int), (''u'', ''K'', 12, 22)])
   \<and> (case find_common_sites [(1, ''S'', 1/2), (1, ''S'', 3/5)] [(1, ''S'', 7/10)] of
      (common, unique1, unique2) \<Rightarrow>
        length common * 2 + length unique1 + length unique2 \<noteq>
          length [(1 :: int, ''S'', 1/2 :: real), (1, ''S'', 3/5)] + length [(1 :: int, ''S'', 7/10 :: real)])
   \<and> (case find_common_sites_msa [(4, 3, ''T'', 9/10), (4, 3, ''T'', 9/10)] [(4, 4, ''T'', 4/5)] of
      (common, unique1, unique2) \<Rightarrow>
        length common * 2 + length unique1 + length unique2 \<noteq>
          length [(4 :: int, 3 :: int, ''T'', 9/10 :: real), (4, 3, ''T'', 9/10)]
          + length [(4 :: int, 4 :: int, ''T'', 4/5 :: real)])"
proof -
  have a: "find_common_domains [(''t'', ''K'', 10, 20)] [(''u'', ''K'', 12, 22), (''u'', ''K'', 12, 22)] =
      ([(''K'', (10, 20), (12, 22), ''t'', ''u'')], [], [])"
    by (simp add: find_common_domains_def group_by_name_def)
  have b: "find_common_sites [(1, ''S'', 1/2), (1, ''S'', 3/5)] [(1, ''S'', 7/10)] =
      ([(1, ''S'', 1/2, 7/10), (1, ''S'', 3/5, 7/10)], [], [])"
    by (simp add: find_common_sites_def)
  have c: "find_common_sites_msa [(4, 3, ''T'', 9/10), (4, 3, ''T'', 9/10)] [(4, 4, ''T'', 4/5)] =
      ([(4, 3, 4, ''T'', 9/10, 4/5), (4, 3, 4, ''T'', 9/10, 4/5)], [], [])"
    by (simp add: find_common_sites_msa_def build_index2_def msa_key_def)
  show ?thesis unfolding a b c by simp
qed

section \<open>Properties of the site extraction\<close>


lemma upper_uppercase: "upper ''S'' = ''S''" "upper ''T'' = ''T''" "upper ''Y'' = ''Y''"
  by code_simp+



























section \<open>When nothing is left to compare\<close>

text \<open>
  The alignment-mode comparison raises when both converted lists are empty. The raw-mode
  comparison has no such check after the cutoff: once the extraction found a site at
  all, it reports, and the report is empty when the cutoff removed every site.
\<close>

lemma compare_phospho_sites_msa_fails_when_empty:
  assumes "convert_sites_to_msa
      (filter_sites_by_cutoff
        (dict_get (extract_sites_msa py_int py_float tsv_file rows headers) (headers ! 0) []) cutoff)
      (pos_map_of msa (headers ! 0)) = []"
    and "convert_sites_to_msa
      (filter_sites_by_cutoff
        (dict_get (extract_sites_msa py_int py_float tsv_file rows headers) (headers ! 1) []) cutoff)
      (pos_map_of msa (headers ! 1)) = []"
  shows "\<exists>e. compare_phospho_sites_msa py_int py_float tsv_file rows msa headers cutoff = Inl e"
  using assms by (simp add: compare_phospho_sites_msa_def Let_def)

lemma compare_phospho_sites_empty_after_cutoff:
  assumes "length headers = 2"
    and "extract_rows py_int py_float tsv_file rows headers \<noteq> []"
    and "filter_sites_by_cutoff
      (dict_get (extract_rows py_int py_float tsv_file rows headers) (headers ! 0) []) cutoff = []"
    and "filter_sites_by_cutoff
      (dict_get (extract_rows py_int py_float tsv_file rows headers) (headers ! 1) []) cutoff = []"
  shows "compare_phospho_sites py_int py_float tsv_file rows headers cutoff = Inr ([], [], [])"
  using assms
  by (simp add: compare_phospho_sites_def extract_sites_def Let_def find_common_sites_def)

text \<open>
  Claim C3 says that both comparisons fail with a "nothing to compare" error when, after
  the cutoff (and the conversion), neither sequence has a usable site. The file below
  has one site with score 0.3 and the cutoff is 0.5: the alignment-mode comparison
  raises its error (\<open>NoSitesRemain\<close>), the raw-mode comparison returns the empty
  report.
\<close>

theorem compare_phospho_sites_empty_report:
  "compare_phospho_sites
     (\<lambda>s. if s = ''5'' then Some 5 else None)
     (\<lambda>s. if s = ''0.3'' then Some (3/10) else None)
     ''predictions.tsv'' [[''sp|P1|A'', ''5'', ''S'', ''0.3'']] [''A'', ''B''] (1/2) =
     Inr ([], [], [])
   \<and> compare_phospho_sites_msa
     (\<lambda>s. if s = ''5'' then Some 5 else None)
     (\<lambda>s. if s = ''0.3'' then Some (3/10) else None)
     ''predictions.tsv'' [[''sp|P1|A'', ''5'', ''S'', ''0.3'']]
     [''A'' \<mapsto> ''MKTYSS'', ''B'' \<mapsto> ''MK-YSS''] [''A'', ''B''] (1/2) =
     Inl NoSitesRemain"
proof -
  have al: "allowed_residues ''predictions.tsv'' = {''S'', ''T'', ''Y''}"
    by (simp add: allowed_residues_def basename_def sublist_Cons_right prefix_Cons)
  have sh: "short_header ''sp|P1|A'' = ''A''" by (simp add: short_header_def)
  have up: "upper ''S'' = ''S''" by code_simp
  have rows: "extract_rows (\<lambda>s. if s = ''5'' then Some 5 else None)
     (\<lambda>s. if s = ''0.3'' then Some (3/10) else None)
     ''predictions.tsv'' [[''sp|P1|A'', ''5'', ''S'', ''0.3'']] [''A'', ''B''] =
     [(''A'', [(5, ''S'', 3/10)])]"
    by (simp add: extract_rows_def extract_row_def al sh up)
  have a: "compare_phospho_sites
     (\<lambda>s. if s = ''5'' then Some 5 else None)
     (\<lambda>s. if s = ''0.3'' then Some (3/10) else None)
     ''predictions.tsv'' [[''sp|P1|A'', ''5'', ''S'', ''0.3'']] [''A'', ''B''] (1/2) =
     Inr ([], [], [])"
    by (simp add: compare_phospho_sites_def extract_sites_def rows dict_get_def
        filter_sites_by_cutoff_def find_common_sites_def)
  have b: "compare_phospho_sites_msa
     (\<lambda>s. if s = ''5'' then Some 5 else None)
     (\<lambda>s. if s = ''0.3'' then Some (3/10) else None)
     ''predictions.tsv'' [[''sp|P1|A'', ''5'', ''S'', ''0.3'']]
     [''A'' \<mapsto> ''MKTYSS'', ''B'' \<mapsto> ''MK-YSS''] [''A'', ''B''] (1/2) =
     Inl NoSitesRemain"
    by (simp add: compare_phospho_sites_msa_def extract_sites_msa_def rows setdefault_def
        dict_get_def filter_sites_by_cutoff_def)
  from a b show ?thesis ..
qed

end
